theory Spec2Isabelle
  imports Complex_Main
begin

section \<open>Lagori (Seven Stones): the simulation core of LagoriGame.tsx\<close>

text \<open>
  The game component keeps its simulation state in React refs (mutable cells) and in the
  React state variables \<open>phase\<close> and \<open>paused\<close>. Every handler of the component (the
  per-frame \<open>loop\<close>/\<open>update\<close>, the keyboard and pointer handlers, \<open>tryPlaceStone\<close>,
  \<open>resetRound\<close>, \<open>startGame\<close>) is modelled as a function from the state before the call to
  the state after it.

  Conventions of the embedding:
  \<^item> JavaScript numbers are idealised: coordinates, speeds and times are \<open>real\<close>, the
    counters of \<open>Metrics\<close> (which only ever hold integers) are \<open>int\<close>. Rounding of
    floating point is not modelled. Division by zero, which JavaScript answers with
    \<open>NaN\<close> or an infinity, is written out where the source can divide by zero.
  \<^item> A handler reads \<open>phase\<close> from its closure: the value is the one at entry for the
    whole call, and \<open>setPhase\<close> only determines the phase seen by the next call (the last
    \<open>setPhase\<close> of a call wins). Calls are atomic, one after the other.
  \<^item> \<open>Math.random()\<close> is an input: a call that may draw random numbers takes the two
    draws of \<open>randomEdgeSpawn\<close> as a pair.
  \<^item> Fields that only serve drawing and the career overlay (modal flags, roadmap data,
    \<open>roundSeed\<close>) are left out; no simulation code reads them.
  \<^item> The level (the prop \<open>levelKey\<close> of the component) is a parameter of the handlers
    that read it, and is the same for all events of a run.
  \<^item> The file holds the component twice, the second time with the phase names and the
    labels in Hindi and the same logic; the first is the one modelled.
\<close>

subsection \<open>Data\<close>

record Vec2 =
  x :: real
  y :: real

datatype LevelKey = beginner | intermediate | advanced

record LevelConfig =
  name :: string
  stones :: int
  attempts :: int
  opponentSpeed :: real
  playerSpeed :: real

datatype Phase = Intro | Aim | Dragging | Flight | Rebuild | Win | Lose

fun LEVELS :: "LevelKey \<Rightarrow> LevelConfig" where
  "LEVELS beginner =
     \<lparr>name = ''Beginner'', stones = 5, attempts = 3, opponentSpeed = 90, playerSpeed = 160\<rparr>"
| "LEVELS intermediate =
     \<lparr>name = ''Intermediate'', stones = 7, attempts = 3, opponentSpeed = 120, playerSpeed = 165\<rparr>"
| "LEVELS advanced =
     \<lparr>name = ''Advanced'', stones = 9, attempts = 2, opponentSpeed = 150, playerSpeed = 170\<rparr>"

record CircleEntity =
  pos :: Vec2
  radius :: real
  color :: string

record Metrics =
  score :: int
  attemptsLeft :: int
  stonesPlaced :: int
  stonesTotal :: int

definition BASE_W :: real where "BASE_W = 900"
definition BASE_H :: real where "BASE_H = 540"

text \<open>The fields of the constant object \<open>world\<close>.\<close>

definition pilePos :: Vec2 where "pilePos = \<lparr>x = BASE_W / 2, y = BASE_H / 2\<rparr>"
definition pileRadius :: real where "pileRadius = 28"
definition placeRange :: real where "placeRange = 46"
definition tagRange :: real where "tagRange = 22"
definition ballFriction :: real where "ballFriction = 985 / 1000"
definition ballStopSpeed :: real where "ballStopSpeed = 20"
definition maxThrowPower :: real where "maxThrowPower = 600"
definition throwPowerScale :: real where "throwPowerScale = 3"

datatype Dir = DirUp | DirDown | DirLeft | DirRight

text \<open>The refs and state variables of the component that the simulation reads or writes.\<close>

record Game =
  phase :: Phase
  paused :: bool
  heldDir :: "Dir option"
  player :: CircleEntity
  opponent :: CircleEntity
  ball :: CircleEntity
  ballVel :: Vec2
  ballActive :: bool
  pileCollapsed :: bool
  metrics :: Metrics
  keys :: "string \<Rightarrow> bool"
  dragging :: bool
  dragStart :: Vec2
  dragCurrent :: Vec2

subsection \<open>Utility functions (math and collisions)\<close>

definition clamp :: "real \<Rightarrow> real \<Rightarrow> real \<Rightarrow> real" where
  "clamp v a b = max a (min b v)"

text \<open>\<open>Math.hypot\<close> of the two components.\<close>

definition len :: "Vec2 \<Rightarrow> real" where
  "len v = sqrt (x v * x v + y v * y v)"

definition sub :: "Vec2 \<Rightarrow> Vec2 \<Rightarrow> Vec2" where
  "sub a b = \<lparr>x = x a - x b, y = y a - y b\<rparr>"

definition add :: "Vec2 \<Rightarrow> Vec2 \<Rightarrow> Vec2" where
  "add a b = \<lparr>x = x a + x b, y = y a + y b\<rparr>"

definition mul :: "Vec2 \<Rightarrow> real \<Rightarrow> Vec2" where
  "mul v s = \<lparr>x = x v * s, y = y v * s\<rparr>"

text \<open>\<open>norm\<close> of the source; the name is taken in HOL.\<close>

definition norm_vec :: "Vec2 \<Rightarrow> Vec2" where
  "norm_vec v = (let l = len v in
     if l = 0 then \<lparr>x = 0, y = 0\<rparr> else \<lparr>x = x v / l, y = y v / l\<rparr>)"

text \<open>\<open>dist\<close> of the source; the name is taken in HOL.\<close>

definition dist_vec :: "Vec2 \<Rightarrow> Vec2 \<Rightarrow> real" where
  "dist_vec a b = sqrt ((x a - x b) * (x a - x b) + (y a - y b) * (y a - y b))"

text \<open>
  The test \<open>t >= 0 && t <= 1\<close> for \<open>t = n / d\<close>. With \<open>d = 0\<close> JavaScript yields
  \<open>NaN\<close> (for \<open>n = 0\<close>) or an infinity, and the test is false for all three; HOL's
  \<open>n / 0 = 0\<close> would pass it, so the case is written out.
\<close>

definition quotient_in_unit :: "real \<Rightarrow> real \<Rightarrow> bool" where
  "quotient_in_unit n d = (if d = 0 then False else 0 \<le> n / d \<and> n / d \<le> 1)"

definition segmentCircleIntersect :: "Vec2 \<Rightarrow> Vec2 \<Rightarrow> Vec2 \<Rightarrow> real \<Rightarrow> bool" where
  "segmentCircleIntersect p0 p1 c r =
    (let d = sub p1 p0;
         f = sub p0 c;
         a = x d * x d + y d * y d;
         b = 2 * (x f * x d + y f * y d);
         cc = x f * x f + y f * y f - r * r;
         discriminant = b * b - 4 * a * cc
     in if discriminant < 0 then False
        else (let discriminant' = sqrt discriminant
              in quotient_in_unit (- b - discriminant') (2 * a)
               \<or> quotient_in_unit (- b + discriminant') (2 * a)))"

subsection \<open>Round control\<close>

text \<open>
  \<open>randomEdgeSpawn\<close>: the pair holds the two values of \<open>Math.random()\<close>, the first for
  the side, the second for the place along it.
\<close>

definition randomEdgeSpawn :: "real \<Rightarrow> real \<Rightarrow> real \<times> real \<Rightarrow> Vec2" where
  "randomEdgeSpawn w h rnd =
    (let side = \<lfloor>fst rnd * 4\<rfloor>;
         margin = 20
     in if side = 0 then \<lparr>x = margin, y = snd rnd * (h - 2 * margin) + margin\<rparr>
        else if side = 1 then \<lparr>x = w - margin, y = snd rnd * (h - 2 * margin) + margin\<rparr>
        else if side = 2 then \<lparr>x = snd rnd * (w - 2 * margin) + margin, y = margin\<rparr>
        else \<lparr>x = snd rnd * (w - 2 * margin) + margin, y = h - margin\<rparr>)"

definition initial :: "LevelConfig \<Rightarrow> Game" where
  "initial level =
    \<lparr>phase = Intro,
     paused = False,
     heldDir = None,
     player = \<lparr>pos = \<lparr>x = 130, y = BASE_H - 90\<rparr>, radius = 14, color = ''#2563eb''\<rparr>,
     opponent = \<lparr>pos = \<lparr>x = BASE_W - 120, y = 80\<rparr>, radius = 14, color = ''#dc2626''\<rparr>,
     ball = \<lparr>pos = \<lparr>x = 130, y = BASE_H - 90\<rparr>, radius = 8, color = ''#111827''\<rparr>,
     ballVel = \<lparr>x = 0, y = 0\<rparr>,
     ballActive = False,
     pileCollapsed = False,
     metrics = \<lparr>score = 0, attemptsLeft = attempts level, stonesPlaced = 0,
                stonesTotal = stones level\<rparr>,
     keys = (\<lambda>k. False),
     dragging = False,
     dragStart = \<lparr>x = 0, y = 0\<rparr>,
     dragCurrent = \<lparr>x = 0, y = 0\<rparr>\<rparr>"

definition resetRound :: "LevelConfig \<Rightarrow> real \<times> real \<Rightarrow> bool \<Rightarrow> Game \<Rightarrow> Game" where
  "resetRound level rnd keepScore s =
    (let m1 = (metrics s)\<lparr>attemptsLeft := attempts level, stonesPlaced := 0,
                           stonesTotal := stones level\<rparr>;
         m2 = (if \<not> keepScore then m1\<lparr>score := 0\<rparr> else m1);
         p = \<lparr>x = 130, y = BASE_H - 90\<rparr>
     in s\<lparr>metrics := m2,
          player := (player s)\<lparr>pos := p\<rparr>,
          opponent := (opponent s)\<lparr>pos := randomEdgeSpawn BASE_W BASE_H rnd\<rparr>,
          ball := (ball s)\<lparr>pos := p\<rparr>,
          ballVel := \<lparr>x = 0, y = 0\<rparr>,
          ballActive := False,
          pileCollapsed := False,
          phase := Aim\<rparr>)"

definition startGame :: "LevelConfig \<Rightarrow> real \<times> real \<Rightarrow> Game \<Rightarrow> Game" where
  "startGame level rnd s =
     resetRound level rnd False (s\<lparr>metrics := (metrics s)\<lparr>score := 0\<rparr>\<rparr>)"

subsection \<open>Placing stones\<close>

definition tryPlaceStone :: "Game \<Rightarrow> Game" where
  "tryPlaceStone s =
    (if phase s \<noteq> Rebuild then s
     else if \<not> (dist_vec (pos (player s)) pilePos \<le> placeRange) then s
     else if stonesPlaced (metrics s) < stonesTotal (metrics s) then
       (let s1 = s\<lparr>metrics := (metrics s)\<lparr>stonesPlaced := stonesPlaced (metrics s) + 1\<rparr>\<rparr>
        in if stonesPlaced (metrics s1) \<ge> stonesTotal (metrics s1)
           then s1\<lparr>metrics := (metrics s1)\<lparr>score := score (metrics s1) + 50\<rparr>, phase := Win\<rparr>
           else s1)
     else s)"

definition handlePlaceStone :: "Game \<Rightarrow> Game" where
  "handlePlaceStone s = tryPlaceStone s"

subsection \<open>Keyboard and pointer handlers\<close>

text \<open>
  \<open>onDown\<close> and \<open>onUp\<close> are the \<open>keydown\<close> and \<open>keyup\<close> handlers. The first argument is
  \<open>e.key.toLowerCase()\<close>, the second \<open>e.code\<close>.
\<close>

definition onDown :: "string \<Rightarrow> string \<Rightarrow> Game \<Rightarrow> Game" where
  "onDown key code s =
    (let s1 = s\<lparr>keys := (keys s)(key := True)\<rparr>;
         s2 = (if code = ''Space'' \<and> phase s = Rebuild then tryPlaceStone s1 else s1)
     in if key = ''p'' then s2\<lparr>paused := \<not> paused s2\<rparr> else s2)"

definition onUp :: "string \<Rightarrow> Game \<Rightarrow> Game" where
  "onUp key s = s\<lparr>keys := (keys s)(key := False)\<rparr>"

text \<open>
  \<open>down\<close>, \<open>move\<close> and \<open>up\<close> are the pointer handlers; \<open>up\<close> also serves
  \<open>pointercancel\<close>. The point is the result of \<open>getLocal\<close>.
\<close>

definition down :: "Vec2 \<Rightarrow> Game \<Rightarrow> Game" where
  "down p s =
    (if phase s \<noteq> Aim then (if phase s = Rebuild then tryPlaceStone s else s)
     else s\<lparr>dragging := True, dragStart := pos (player s), dragCurrent := p,
            phase := Dragging\<rparr>)"

definition move :: "Vec2 \<Rightarrow> Game \<Rightarrow> Game" where
  "move p s = (if \<not> dragging s then s else s\<lparr>dragCurrent := p\<rparr>)"

definition up :: "Game \<Rightarrow> Game" where
  "up s =
    (if \<not> dragging s then s
     else (let dir = sub (dragCurrent s) (dragStart s);
               power = clamp (len dir * throwPowerScale) 0 maxThrowPower;
               v = mul (norm_vec dir) power
           in s\<lparr>dragging := False,
                ball := (ball s)\<lparr>pos := pos (player s)\<rparr>,
                ballVel := v,
                ballActive := True,
                phase := Flight\<rparr>))"

text \<open>\<open>handleMove\<close>: a single step of the player, a tenth of a second's worth.\<close>

definition handleMove :: "LevelConfig \<Rightarrow> Dir \<Rightarrow> Game \<Rightarrow> Game" where
  "handleMove level dir s =
    (if phase s \<noteq> Rebuild then s
     else (let speed = playerSpeed level * (1 / 10);
               p = pos (player s);
               p' = (case dir of
                       DirUp \<Rightarrow> p\<lparr>y := max 10 (y p - speed)\<rparr>
                     | DirDown \<Rightarrow> p\<lparr>y := min (BASE_H - 10) (y p + speed)\<rparr>
                     | DirLeft \<Rightarrow> p\<lparr>x := max 10 (x p - speed)\<rparr>
                     | DirRight \<Rightarrow> p\<lparr>x := min (BASE_W - 10) (x p + speed)\<rparr>)
           in s\<lparr>player := (player s)\<lparr>pos := p'\<rparr>\<rparr>))"

subsection \<open>The per-frame update\<close>

text \<open>The vector \<open>move\<close> that \<open>update\<close> builds from the held keys.\<close>

definition keyMove :: "(string \<Rightarrow> bool) \<Rightarrow> Vec2" where
  "keyMove k =
    (let m0 = \<lparr>x = 0, y = 0\<rparr>;
         m1 = (if k ''w'' \<or> k ''arrowup'' then m0\<lparr>y := y m0 - 1\<rparr> else m0);
         m2 = (if k ''s'' \<or> k ''arrowdown'' then m1\<lparr>y := y m1 + 1\<rparr> else m1);
         m3 = (if k ''a'' \<or> k ''arrowleft'' then m2\<lparr>x := x m2 - 1\<rparr> else m2);
         m4 = (if k ''d'' \<or> k ''arrowright'' then m3\<lparr>x := x m3 + 1\<rparr> else m3)
     in m4)"

text \<open>The player's position after the keyboard part of the rebuild block.\<close>

definition keyStep :: "LevelConfig \<Rightarrow> real \<Rightarrow> (string \<Rightarrow> bool) \<Rightarrow> Vec2 \<Rightarrow> Vec2" where
  "keyStep level dt k p =
    (let v = norm_vec (keyMove k)
     in \<lparr>x = clamp (x p + x v * playerSpeed level * dt) 10 (BASE_W - 10),
         y = clamp (y p + y v * playerSpeed level * dt) 10 (BASE_H - 10)\<rparr>)"

text \<open>The player's position after the on-screen button part of the rebuild block.\<close>

definition heldStep :: "LevelConfig \<Rightarrow> real \<Rightarrow> Dir option \<Rightarrow> Vec2 \<Rightarrow> Vec2" where
  "heldStep level dt held p =
    (case held of
       None \<Rightarrow> p
     | Some DirUp \<Rightarrow> p\<lparr>y := max 10 (y p - playerSpeed level * dt)\<rparr>
     | Some DirDown \<Rightarrow> p\<lparr>y := min (BASE_H - 10) (y p + playerSpeed level * dt)\<rparr>
     | Some DirLeft \<Rightarrow> p\<lparr>x := max 10 (x p - playerSpeed level * dt)\<rparr>
     | Some DirRight \<Rightarrow> p\<lparr>x := min (BASE_W - 10) (x p + playerSpeed level * dt)\<rparr>)"

text \<open>The block of \<open>update\<close> under \<open>phase === "rebuild"\<close>.\<close>

definition rebuildBlock :: "LevelConfig \<Rightarrow> real \<Rightarrow> Game \<Rightarrow> Game" where
  "rebuildBlock level dt s =
    (let p = heldStep level dt (heldDir s) (keyStep level dt (keys s) (pos (player s)));
         dir = norm_vec (sub p (pos (opponent s)));
         q = pos (opponent s);
         q' = \<lparr>x = x q + x dir * opponentSpeed level * dt,
               y = y q + y dir * opponentSpeed level * dt\<rparr>;
         s1 = s\<lparr>player := (player s)\<lparr>pos := p\<rparr>, opponent := (opponent s)\<lparr>pos := q'\<rparr>\<rparr>
     in if dist_vec p q' \<le> tagRange then s1\<lparr>phase := Lose\<rparr> else s1)"

text \<open>The block of \<open>update\<close> under \<open>phase === "flight" && ballActive.current\<close>.\<close>

definition flightBlock :: "real \<times> real \<Rightarrow> real \<Rightarrow> Game \<Rightarrow> Game" where
  "flightBlock rnd dt s =
    (let prev = pos (ball s);
         bp = \<lparr>x = x prev + x (ballVel s) * dt, y = y prev + y (ballVel s) * dt\<rparr>;
         bv = \<lparr>x = x (ballVel s) * ballFriction, y = y (ballVel s) * ballFriction\<rparr>;
         s1 = s\<lparr>ball := (ball s)\<lparr>pos := bp\<rparr>, ballVel := bv\<rparr>;
         s2 = (if \<not> pileCollapsed s1 \<and> segmentCircleIntersect prev bp pilePos pileRadius
               then s1\<lparr>pileCollapsed := True,
                       metrics := (metrics s1)\<lparr>score := score (metrics s1) + 10\<rparr>,
                       opponent := (opponent s1)\<lparr>pos := randomEdgeSpawn BASE_W BASE_H rnd\<rparr>,
                       phase := Rebuild,
                       ballActive := False\<rparr>
               else s1);
         speed = len bv;
         out = (x bp < - 50 \<or> x bp > BASE_W + 50 \<or> y bp < - 50 \<or> y bp > BASE_H + 50)
     in if speed < ballStopSpeed \<or> out then
          (let s3 = s2\<lparr>ballActive := False\<rparr>
           in if \<not> pileCollapsed s3 then
                (let s4 = s3\<lparr>metrics := (metrics s3)\<lparr>attemptsLeft :=
                                            attemptsLeft (metrics s3) - 1\<rparr>\<rparr>
                 in if attemptsLeft (metrics s4) > 0 then s4\<lparr>phase := Aim\<rparr>
                    else s4\<lparr>phase := Lose\<rparr>)
              else s3\<lparr>phase := Rebuild\<rparr>)
        else s2)"

definition update :: "LevelConfig \<Rightarrow> real \<times> real \<Rightarrow> real \<Rightarrow> Game \<Rightarrow> Game" where
  "update level rnd dt s =
    (let s1 = (if phase s = Rebuild then rebuildBlock level dt s else s)
     in if phase s = Flight \<and> ballActive s1 then flightBlock rnd dt s1 else s1)"

text \<open>
  \<open>loop\<close>: one animation frame; \<open>elapsed\<close> is \<open>now - last\<close> in milliseconds.
\<close>

definition loop :: "LevelConfig \<Rightarrow> real \<times> real \<Rightarrow> real \<Rightarrow> Game \<Rightarrow> Game" where
  "loop level rnd elapsed s =
    (let dt = min 50 elapsed / 1000
     in if \<not> paused s then update level rnd dt s else s)"

subsection \<open>Events and reachable states\<close>

text \<open>
  The calls that the page and the browser make into the component: key down and up (the
  lower-cased key, and the code for key down), pointer down, move and up (or cancel), the
  Place button, pressing (\<open>Some\<close>) or releasing (\<open>None\<close>) an on-screen direction button, a
  call of \<open>handleMove\<close> (which no element of the page makes), the Pause button, the Start
  button, the Next Round and Restart buttons (\<open>resetRound\<close> with \<open>keepScore\<close> true and false)
  and an animation frame with the milliseconds since the last one. The events that may call
  \<open>randomEdgeSpawn\<close> carry the random draws.
\<close>

datatype Event =
    KeyDown string string
  | KeyUp string
  | PointerDown Vec2
  | PointerMove Vec2
  | PointerUp
  | PlaceButton
  | HoldButton "Dir option"
  | MoveStep Dir
  | PauseButton
  | StartGame "real \<times> real"
  | ResetRound bool "real \<times> real"
  | Frame real "real \<times> real"

fun step :: "LevelConfig \<Rightarrow> Event \<Rightarrow> Game \<Rightarrow> Game" where
  "step level (KeyDown key code) s = onDown key code s"
| "step level (KeyUp key) s = onUp key s"
| "step level (PointerDown p) s = down p s"
| "step level (PointerMove p) s = move p s"
| "step level PointerUp s = up s"
| "step level PlaceButton s = handlePlaceStone s"
| "step level (HoldButton held) s = s\<lparr>heldDir := held\<rparr>"
| "step level (MoveStep dir) s = handleMove level dir s"
| "step level PauseButton s = s\<lparr>paused := \<not> paused s\<rparr>"
| "step level (StartGame rnd) s = startGame level rnd s"
| "step level (ResetRound keepScore rnd) s = resetRound level rnd keepScore s"
| "step level (Frame elapsed rnd) s = loop level rnd elapsed s"

text \<open>The events that start a round.\<close>

fun roundStart :: "Event \<Rightarrow> bool" where
  "roundStart (StartGame rnd) = True"
| "roundStart (ResetRound keepScore rnd) = True"
| "roundStart e = False"

fun run :: "LevelConfig \<Rightarrow> Event list \<Rightarrow> Game \<Rightarrow> Game" where
  "run level [] s = s"
| "run level (e # es) s = run level es (step level e s)"

text \<open>
  The states of a game at level \<open>k\<close>: from the component's initial state, or from the
  start of a round out of any state, by any sequence of events.
\<close>

inductive reachable :: "LevelKey \<Rightarrow> Game \<Rightarrow> bool" for k :: LevelKey where
  reach_initial: "reachable k (initial (LEVELS k))"
| reach_round: "reachable k (resetRound (LEVELS k) rnd keepScore s)"
| reach_step: "reachable k s \<Longrightarrow> reachable k (step (LEVELS k) e s)"

subsection \<open>Notions used in the statements and proofs\<close>

text \<open>
  The coefficients of the quadratic that \<open>segmentCircleIntersect\<close> solves, as functions of
  the points: \<open>seg_a\<close> is the squared length of the segment, \<open>seg_c p c r\<close> is the squared
  distance of \<open>p\<close> from \<open>c\<close> minus \<open>r\<close> squared (negative strictly inside the circle).
\<close>

definition seg_a :: "Vec2 \<Rightarrow> Vec2 \<Rightarrow> real" where
  "seg_a p0 p1 = (x p1 - x p0) * (x p1 - x p0) + (y p1 - y p0) * (y p1 - y p0)"

definition seg_b :: "Vec2 \<Rightarrow> Vec2 \<Rightarrow> Vec2 \<Rightarrow> real" where
  "seg_b p0 p1 c = 2 * ((x p0 - x c) * (x p1 - x p0) + (y p0 - y c) * (y p1 - y p0))"

definition seg_c :: "Vec2 \<Rightarrow> Vec2 \<Rightarrow> real \<Rightarrow> real" where
  "seg_c p0 c r = (x p0 - x c) * (x p0 - x c) + (y p0 - y c) * (y p0 - y c) - r * r"

text \<open>
  \<open>crossing a b cc\<close>: for \<open>a > 0\<close>, a root of \<open>a t\<^sup>2 + b t + cc\<close> lies in \<open>[0, 1]\<close>,
  written without the square root (first the smaller root, then the larger).
\<close>

definition crossing :: "real \<Rightarrow> real \<Rightarrow> real \<Rightarrow> bool" where
  "crossing a b cc \<longleftrightarrow> 0 \<le> b * b - 4 * a * cc \<and>
     ((b \<le> 0 \<and> 0 \<le> cc \<and> (0 \<le> b + 2 * a \<or> a + b + cc \<le> 0)) \<or>
      ((b \<le> 0 \<or> cc \<le> 0) \<and> 0 \<le> 2 * a + b \<and> 0 \<le> a + b + cc))"

text \<open>
  The invariant of a round at level \<open>k\<close>. Before the collapse (\<open>pre_collapse\<close>) no stone is
  placed, the pile stands and an attempt is left.
\<close>

definition pre_collapse :: "Game \<Rightarrow> bool" where
  "pre_collapse s \<longleftrightarrow>
     stonesPlaced (metrics s) = 0 \<and> \<not> pileCollapsed s \<and> 1 \<le> attemptsLeft (metrics s)"

definition round_inv :: "LevelKey \<Rightarrow> Game \<Rightarrow> bool" where
  "round_inv k s \<longleftrightarrow>
     stonesTotal (metrics s) = stones (LEVELS k) \<and>
     0 \<le> stonesPlaced (metrics s) \<and>
     stonesPlaced (metrics s) \<le> stonesTotal (metrics s) \<and>
     attemptsLeft (metrics s) \<le> attempts (LEVELS k) \<and>
     (phase s \<in> {Intro, Aim, Dragging, Flight} \<longrightarrow> pre_collapse s) \<and>
     (phase s = Flight \<longrightarrow> ballActive s) \<and>
     (phase s \<in> {Rebuild, Win} \<longrightarrow> pileCollapsed s \<and> 1 \<le> attemptsLeft (metrics s)) \<and>
     (phase s = Rebuild \<longrightarrow> stonesPlaced (metrics s) < stonesTotal (metrics s)) \<and>
     (phase s = Win \<longrightarrow> stonesPlaced (metrics s) = stonesTotal (metrics s)) \<and>
     (phase s = Lose \<longrightarrow> 0 \<le> attemptsLeft (metrics s)) \<and>
     (phase s = Dragging \<longrightarrow> dragging s) \<and>
     (dragging s \<longrightarrow> phase s \<in> {Aim, Dragging})"

text \<open>
  The new position and velocity of the ball that the flight block computes, and its two
  tests: \<open>hitsPile\<close> is the condition of the collapse branch in a state where the flight
  block runs, \<open>ballEnds\<close> the stop condition (too slow after friction, or out of the field
  by more than 50).
\<close>

definition ballNext :: "real \<Rightarrow> Game \<Rightarrow> Vec2" where
  "ballNext dt s = \<lparr>x = x (pos (ball s)) + x (ballVel s) * dt,
                    y = y (pos (ball s)) + y (ballVel s) * dt\<rparr>"

definition velNext :: "Game \<Rightarrow> Vec2" where
  "velNext s = \<lparr>x = x (ballVel s) * ballFriction, y = y (ballVel s) * ballFriction\<rparr>"

definition hitsPile :: "real \<Rightarrow> Game \<Rightarrow> bool" where
  "hitsPile dt s \<longleftrightarrow>
     phase s = Flight \<and> ballActive s \<and> \<not> pileCollapsed s \<and>
     segmentCircleIntersect (pos (ball s)) (ballNext dt s) pilePos pileRadius"

definition ballEnds :: "real \<Rightarrow> Game \<Rightarrow> bool" where
  "ballEnds dt s \<longleftrightarrow>
     len (velNext s) < ballStopSpeed \<or>
     x (ballNext dt s) < - 50 \<or> x (ballNext dt s) > BASE_W + 50 \<or>
     y (ballNext dt s) < - 50 \<or> y (ballNext dt s) > BASE_H + 50"

text \<open>
  A failed throw: a flight tick on which the ball ends while the pile is still standing
  (not collapsed before, and not hit on this tick).
\<close>

definition failedThrow :: "real \<Rightarrow> Game \<Rightarrow> bool" where
  "failedThrow dt s \<longleftrightarrow>
     phase s = Flight \<and> ballActive s \<and> \<not> pileCollapsed s \<and>
     \<not> segmentCircleIntersect (pos (ball s)) (ballNext dt s) pilePos pileRadius \<and>
     ballEnds dt s"

text \<open>The events that run the collapse branch, and those that cost an attempt.\<close>

fun collapseAward :: "Event \<Rightarrow> Game \<Rightarrow> bool" where
  "collapseAward (Frame elapsed rnd) s = (\<not> paused s \<and> hitsPile (min 50 elapsed / 1000) s)"
| "collapseAward e s = False"

fun attemptLost :: "Event \<Rightarrow> Game \<Rightarrow> bool" where
  "attemptLost (Frame elapsed rnd) s = (\<not> paused s \<and> failedThrow (min 50 elapsed / 1000) s)"
| "attemptLost e s = False"

text \<open>The number of collapse awards along a sequence of events.\<close>

fun awards :: "LevelConfig \<Rightarrow> Event list \<Rightarrow> Game \<Rightarrow> nat" where
  "awards level [] s = 0"
| "awards level (e # es) s =
     (if collapseAward e s then 1 else 0) + awards level es (step level e s)"

text \<open>The events that are place actions: the Place button, a pointer-down, the Space key.\<close>

fun placeAction :: "Event \<Rightarrow> bool" where
  "placeAction PlaceButton = True"
| "placeAction (PointerDown p) = True"
| "placeAction (KeyDown key code) = (code = ''Space'')"
| "placeAction e = False"

text \<open>The play field minus the margin of 10 units.\<close>

definition inField :: "Vec2 \<Rightarrow> bool" where
  "inField p \<longleftrightarrow> 10 \<le> x p \<and> x p \<le> BASE_W - 10 \<and> 10 \<le> y p \<and> y p \<le> BASE_H - 10"

subsection \<open>A game at the beginner level\<close>

text \<open>
  A sequence of events that plays a round at the beginner level, used to show on the
  definitions themselves that the states the claims speak of are reached. Every frame
  (\<open>tick\<close>) takes 50 ms and carries the random draws \<open>(1/4, 1/2)\<close>, which put the opponent
  at \<open>(880, 270)\<close> when the pile collapses.

  The throw (\<open>throwEvents\<close>): the game is started, the pointer goes down at \<open>(430, 290)\<close>
  and up again, a drag of \<open>(300, -160)\<close> from the player at \<open>(130, 450)\<close>, of length 340, so
  the throw has the full power 600 along \<open>(15, -8) / 17\<close>; then twelve frames pass. The
  state after the three input events is \<open>thrown\<close>; \<open>flying p v\<close> is that state with the
  ball at \<open>p\<close> with velocity \<open>v\<close>, and \<open>ballAt n\<close>, \<open>velAt n\<close> are position and velocity
  after \<open>n\<close> frames of free flight.
\<close>

definition tick :: Event where
  "tick = Frame 50 (1 / 4, 1 / 2)"

definition thrown :: Game where
  "thrown = run (LEVELS beginner)
     [StartGame (0, 0), PointerDown \<lparr>x = 430, y = 290\<rparr>, PointerUp] (initial (LEVELS beginner))"

definition flying :: "Vec2 \<Rightarrow> Vec2 \<Rightarrow> Game" where
  "flying p v = thrown\<lparr>ball := (ball thrown)\<lparr>pos := p\<rparr>, ballVel := v\<rparr>"

definition ballAt :: "nat \<Rightarrow> Vec2" where
  "ballAt n = \<lparr>x = 130 + 30000 / 17 * (1 - (197 / 200) ^ n),
               y = 450 - 16000 / 17 * (1 - (197 / 200) ^ n)\<rparr>"

definition velAt :: "nat \<Rightarrow> Vec2" where
  "velAt n = \<lparr>x = 9000 / 17 * (197 / 200) ^ n, y = - (4800 / 17) * (197 / 200) ^ n\<rparr>"

definition throwEvents :: "Event list" where
  "throwEvents =
     [StartGame (0, 0), PointerDown \<lparr>x = 430, y = 290\<rparr>, PointerUp] @ replicate 12 tick"

text \<open>
  The walk (\<open>walkEvents\<close>): the thirteenth frame hits the pile; then the key \<open>d\<close> is held
  for forty frames and the key \<open>w\<close> for eighteen, which takes the player from \<open>(130, 450)\<close>
  to \<open>(450, 306)\<close>, 36 units from the pile centre. \<open>rebuilding K p b n s\<close> describes the
  states on the way: phase Rebuild, not paused, no button held, the keys \<open>K\<close> held, the
  player at \<open>p\<close>, the opponent at or to the right of \<open>x = b\<close>, score 10, three attempts and
  \<open>n\<close> of five stones placed.
\<close>

definition walkEvents :: "Event list" where
  "walkEvents =
     [tick, KeyDown ''d'' ''KeyD''] @ replicate 40 tick @
     [KeyUp ''d'', KeyDown ''w'' ''KeyW''] @ replicate 18 tick"

definition walkKeys :: "string \<Rightarrow> bool" where
  "walkKeys = (\<lambda>k. False)(''d'' := True, ''d'' := False, ''w'' := True)"

definition rebuilding :: "(string \<Rightarrow> bool) \<Rightarrow> Vec2 \<Rightarrow> real \<Rightarrow> int \<Rightarrow> Game \<Rightarrow> bool" where
  "rebuilding K p b n s \<longleftrightarrow>
     phase s = Rebuild \<and> \<not> paused s \<and> heldDir s = None \<and> keys s = K \<and>
     pos (player s) = p \<and> b \<le> x (pos (opponent s)) \<and> pileCollapsed s \<and>
     metrics s = \<lparr>score = 10, attemptsLeft = 3, stonesPlaced = n, stonesTotal = 5\<rparr>"

section \<open>Lemmas\<close>

subsection \<open>Square roots and the intersection test\<close>

lemma sqrt_le_iff':
  assumes D: "0 \<le> D"
  shows "sqrt D \<le> t \<longleftrightarrow> 0 \<le> t \<and> D \<le> t * t"
proof
  assume h: "sqrt D \<le> t"
  have t: "0 \<le> t" by (rule order_trans [OF real_sqrt_ge_zero [OF D] h])
  have "sqrt D * sqrt D \<le> t * t" using h D t by (intro mult_mono) auto
  then show "0 \<le> t \<and> D \<le> t * t" using t D by simp
next
  assume h: "0 \<le> t \<and> D \<le> t * t"
  then have "sqrt D \<le> sqrt (t * t)" by (simp only: real_sqrt_le_iff)
  then show "sqrt D \<le> t" using h by simp
qed

lemma le_sqrt_iff':
  assumes D: "0 \<le> D"
  shows "t \<le> sqrt D \<longleftrightarrow> t \<le> 0 \<or> t * t \<le> D"
proof (cases "t \<le> 0")
  case True
  then show ?thesis using order_trans [OF True real_sqrt_ge_zero [OF D]] by simp
next
  case False
  have "t \<le> sqrt D \<longleftrightarrow> sqrt (t * t) \<le> sqrt D" using False by simp
  also have "\<dots> \<longleftrightarrow> t * t \<le> D" by (rule real_sqrt_le_iff)
  finally show ?thesis using False by simp
qed

lemma sqrt_less_iff': "0 \<le> D \<Longrightarrow> sqrt D < t \<longleftrightarrow> 0 < t \<and> D < t * t"
  using le_sqrt_iff' [of D t] by (simp add: not_le [symmetric])

lemma less_sqrt_iff': "0 \<le> D \<Longrightarrow> t < sqrt D \<longleftrightarrow> t < 0 \<or> t * t < D"
  using sqrt_le_iff' [of D t] by (simp add: not_le [symmetric])

lemma quotient_in_unit_pos: "0 < d \<Longrightarrow> quotient_in_unit n d \<longleftrightarrow> 0 \<le> n \<and> n \<le> d"
  by (simp add: quotient_in_unit_def field_simps)

lemma roots_in_unit:
  assumes a: "0 < a" and D: "0 \<le> b * b - 4 * a * cc"
  shows "quotient_in_unit (- b - sqrt (b * b - 4 * a * cc)) (2 * a)
           \<longleftrightarrow> b \<le> 0 \<and> 0 \<le> cc \<and> (0 \<le> b + 2 * a \<or> a + b + cc \<le> 0)"
    and "quotient_in_unit (- b + sqrt (b * b - 4 * a * cc)) (2 * a)
           \<longleftrightarrow> (b \<le> 0 \<or> cc \<le> 0) \<and> 0 \<le> 2 * a + b \<and> 0 \<le> a + b + cc"
proof -
  let ?D = "b * b - 4 * a * cc"
  have e1: "?D \<le> (- b) * (- b) \<longleftrightarrow> 0 \<le> cc"
    using a by (simp add: zero_le_mult_iff)
  have e2: "(- b - 2 * a) * (- b - 2 * a) \<le> ?D \<longleftrightarrow> a + b + cc \<le> 0"
  proof -
    have "(- b - 2 * a) * (- b - 2 * a) - ?D = 4 * a * (a + b + cc)" by (simp add: algebra_simps)
    then have "(- b - 2 * a) * (- b - 2 * a) \<le> ?D \<longleftrightarrow> 4 * a * (a + b + cc) \<le> 0" by linarith
    also have "\<dots> \<longleftrightarrow> a + b + cc \<le> 0" using a by (simp add: mult_le_0_iff)
    finally show ?thesis .
  qed
  have e3: "b * b \<le> ?D \<longleftrightarrow> cc \<le> 0"
    using a by (simp add: mult_le_0_iff)
  have e4: "?D \<le> (2 * a + b) * (2 * a + b) \<longleftrightarrow> 0 \<le> a + b + cc"
  proof -
    have "(2 * a + b) * (2 * a + b) - ?D = 4 * a * (a + b + cc)" by (simp add: algebra_simps)
    then have "?D \<le> (2 * a + b) * (2 * a + b) \<longleftrightarrow> 0 \<le> 4 * a * (a + b + cc)" by linarith
    also have "\<dots> \<longleftrightarrow> 0 \<le> a + b + cc" using a by (simp add: zero_le_mult_iff)
    finally show ?thesis .
  qed
  have "quotient_in_unit (- b - sqrt ?D) (2 * a) \<longleftrightarrow> sqrt ?D \<le> - b \<and> - b - 2 * a \<le> sqrt ?D"
    using a by (auto simp: quotient_in_unit_pos)
  also have "\<dots> \<longleftrightarrow> (0 \<le> - b \<and> ?D \<le> (- b) * (- b)) \<and> (- b - 2 * a \<le> 0 \<or> (- b - 2 * a) * (- b - 2 * a) \<le> ?D)"
    by (simp only: sqrt_le_iff' [OF D] le_sqrt_iff' [OF D])
  also have "\<dots> \<longleftrightarrow> b \<le> 0 \<and> 0 \<le> cc \<and> (0 \<le> b + 2 * a \<or> a + b + cc \<le> 0)"
    unfolding e1 e2 by auto
  finally show "quotient_in_unit (- b - sqrt ?D) (2 * a)
           \<longleftrightarrow> b \<le> 0 \<and> 0 \<le> cc \<and> (0 \<le> b + 2 * a \<or> a + b + cc \<le> 0)" .
  have "quotient_in_unit (- b + sqrt ?D) (2 * a) \<longleftrightarrow> b \<le> sqrt ?D \<and> sqrt ?D \<le> 2 * a + b"
    using a by (auto simp: quotient_in_unit_pos)
  also have "\<dots> \<longleftrightarrow> (b \<le> 0 \<or> b * b \<le> ?D) \<and> (0 \<le> 2 * a + b \<and> ?D \<le> (2 * a + b) * (2 * a + b))"
    by (simp only: sqrt_le_iff' [OF D] le_sqrt_iff' [OF D])
  also have "\<dots> \<longleftrightarrow> (b \<le> 0 \<or> cc \<le> 0) \<and> 0 \<le> 2 * a + b \<and> 0 \<le> a + b + cc"
    unfolding e3 e4 by auto
  finally show "quotient_in_unit (- b + sqrt ?D) (2 * a)
           \<longleftrightarrow> (b \<le> 0 \<or> cc \<le> 0) \<and> 0 \<le> 2 * a + b \<and> 0 \<le> a + b + cc" .
qed

lemma seg_a_nonneg: "0 \<le> seg_a p0 p1"
  by (simp add: seg_a_def)

lemma seg_a_zero_iff: "seg_a p0 p1 = 0 \<longleftrightarrow> p0 = p1"
proof -
  have "seg_a p0 p1 = 0 \<longleftrightarrow> x p1 - x p0 = 0 \<and> y p1 - y p0 = 0"
    unfolding seg_a_def by (simp add: sum_squares_eq_zero_iff)
  also have "\<dots> \<longleftrightarrow> p0 = p1" by (auto intro: Vec2.equality)
  finally show ?thesis .
qed

lemma segmentCircleIntersect_iff:
  "segmentCircleIntersect p0 p1 c r \<longleftrightarrow>
     p0 \<noteq> p1 \<and> crossing (seg_a p0 p1) (seg_b p0 p1 c) (seg_c p0 c r)"
proof (cases "p0 = p1")
  case True
  then have "seg_a p0 p1 = 0" by (simp add: seg_a_zero_iff)
  then have "quotient_in_unit n (2 * seg_a p0 p1) = False" for n
    by (simp add: quotient_in_unit_def)
  then show ?thesis using True
    by (simp add: segmentCircleIntersect_def Let_def sub_def seg_a_def)
next
  case False
  then have a: "0 < seg_a p0 p1"
    using seg_a_nonneg [of p0 p1] seg_a_zero_iff [of p0 p1] by linarith
  let ?a = "seg_a p0 p1" and ?b = "seg_b p0 p1 c" and ?cc = "seg_c p0 c r"
  have unf: "segmentCircleIntersect p0 p1 c r \<longleftrightarrow>
      (if ?b * ?b - 4 * ?a * ?cc < 0 then False
       else quotient_in_unit (- ?b - sqrt (?b * ?b - 4 * ?a * ?cc)) (2 * ?a)
          \<or> quotient_in_unit (- ?b + sqrt (?b * ?b - 4 * ?a * ?cc)) (2 * ?a))"
    by (simp add: segmentCircleIntersect_def Let_def sub_def seg_a_def seg_b_def seg_c_def)
  show ?thesis
  proof (cases "?b * ?b - 4 * ?a * ?cc < 0")
    case True
    then show ?thesis unfolding unf by (simp add: crossing_def)
  next
    case neg: False
    then have D: "0 \<le> ?b * ?b - 4 * ?a * ?cc" by simp
    show ?thesis unfolding unf using neg False D
      by (simp only: roots_in_unit [OF a D] crossing_def if_False not_False_eq_True simp_thms)
  qed
qed

lemma sum_sq_nonneg: "0 \<le> (u::real) * u + v * v"
  by simp

lemma dist_vec_le_iff:
  assumes r: "0 \<le> r"
  shows "dist_vec p c \<le> r \<longleftrightarrow> seg_c p c r \<le> 0"
proof -
  let ?S = "(x p - x c) * (x p - x c) + (y p - y c) * (y p - y c)"
  have S: "0 \<le> ?S" by (rule sum_sq_nonneg)
  have "sqrt ?S \<le> r \<longleftrightarrow> 0 \<le> r \<and> ?S \<le> r * r" by (rule sqrt_le_iff' [OF S])
  then show ?thesis unfolding dist_vec_def seg_c_def using r by simp
qed

subsection \<open>Vectors\<close>

lemma len_eq: "0 \<le> l \<Longrightarrow> x v * x v + y v * y v = l * l \<Longrightarrow> len v = l"
  by (simp add: len_def)

lemma len_nonneg: "0 \<le> len v"
  by (simp add: len_def)

lemma len_zero_iff: "len v = 0 \<longleftrightarrow> v = \<lparr>x = 0, y = 0\<rparr>"
proof -
  have "len v = 0 \<longleftrightarrow> x v = 0 \<and> y v = 0"
    by (simp add: len_def sum_squares_eq_zero_iff)
  also have "\<dots> \<longleftrightarrow> v = \<lparr>x = 0, y = 0\<rparr>" by (auto intro: Vec2.equality)
  finally show ?thesis .
qed

lemma len_mul: "len (mul v c) = \<bar>c\<bar> * len v"
proof -
  have "x v * c * (x v * c) + y v * c * (y v * c) = (c * c) * (x v * x v + y v * y v)"
    by (simp add: algebra_simps)
  then show ?thesis by (simp add: len_def mul_def real_sqrt_mult)
qed

lemma norm_vec_eq_mul: "norm_vec v = mul v (1 / len v)"
  by (simp add: norm_vec_def mul_def Let_def len_zero_iff [symmetric])

lemma len_norm_vec: "len v \<noteq> 0 \<Longrightarrow> len (norm_vec v) = 1"
  using len_nonneg [of v] by (simp add: norm_vec_eq_mul len_mul)

lemma norm_vec_zero: "len v = 0 \<Longrightarrow> norm_vec v = \<lparr>x = 0, y = 0\<rparr>"
  by (simp add: norm_vec_def)

lemma norm_vec_scaled:
  assumes u: "len u = 1" and c: "0 < c"
  shows "norm_vec (mul u c) = u"
proof -
  have l: "len (mul u c) = c" using u c by (simp add: len_mul)
  show ?thesis using c by (simp add: norm_vec_def Let_def l) (simp add: mul_def)
qed

subsection \<open>The invariant of a round\<close>

lemma LEVELS_pos: "1 \<le> stones (LEVELS k)" "1 \<le> attempts (LEVELS k)"
  by (cases k; simp)+

lemma inv_initial: "round_inv k (initial (LEVELS k))"
  using LEVELS_pos [of k] by (simp add: round_inv_def pre_collapse_def initial_def)

lemma inv_resetRound: "round_inv k (resetRound (LEVELS k) rnd keepScore s)"
  using LEVELS_pos [of k] by (simp add: round_inv_def pre_collapse_def resetRound_def Let_def)

lemma inv_startGame: "round_inv k (startGame (LEVELS k) rnd s)"
  unfolding startGame_def by (rule inv_resetRound)

lemma inv_tryPlaceStone: "round_inv k s \<Longrightarrow> round_inv k (tryPlaceStone s)"
  by (cases "phase s") (auto simp: round_inv_def pre_collapse_def tryPlaceStone_def Let_def)

lemma inv_keys: "round_inv k (s\<lparr>keys := ks\<rparr>) = round_inv k s"
  by (simp add: round_inv_def pre_collapse_def)

lemma inv_paused: "round_inv k (s\<lparr>paused := b\<rparr>) = round_inv k s"
  by (simp add: round_inv_def pre_collapse_def)

lemma inv_heldDir: "round_inv k (s\<lparr>heldDir := d\<rparr>) = round_inv k s"
  by (simp add: round_inv_def pre_collapse_def)

lemma inv_onDown: "round_inv k s \<Longrightarrow> round_inv k (onDown key code s)"
  by (simp add: onDown_def Let_def inv_keys inv_paused inv_tryPlaceStone)

lemma inv_onUp: "round_inv k s \<Longrightarrow> round_inv k (onUp key s)"
  by (simp add: onUp_def inv_keys)

lemma inv_down: "round_inv k s \<Longrightarrow> round_inv k (down p s)"
  by (cases "phase s") (simp_all add: down_def inv_tryPlaceStone, auto simp: round_inv_def pre_collapse_def)

lemma inv_move: "round_inv k s \<Longrightarrow> round_inv k (move p s)"
  by (auto simp: move_def round_inv_def pre_collapse_def)

lemma inv_up: "round_inv k s \<Longrightarrow> round_inv k (up s)"
  by (cases "phase s") (auto simp: up_def Let_def round_inv_def pre_collapse_def)

lemma inv_handleMove: "round_inv k s \<Longrightarrow> round_inv k (handleMove level dir s)"
  by (auto simp: handleMove_def Let_def round_inv_def pre_collapse_def)

lemma inv_rebuildBlock:
  "round_inv k s \<Longrightarrow> phase s = Rebuild \<Longrightarrow> round_inv k (rebuildBlock level dt s)"
  by (auto simp: rebuildBlock_def Let_def round_inv_def pre_collapse_def)

lemma inv_flightBlock:
  "round_inv k s \<Longrightarrow> phase s = Flight \<Longrightarrow> round_inv k (flightBlock rnd dt s)"
  using LEVELS_pos [of k]
  by (auto simp: flightBlock_def Let_def round_inv_def pre_collapse_def)

lemma inv_update: "round_inv k s \<Longrightarrow> round_inv k (update level rnd dt s)"
  by (simp add: update_def Let_def inv_rebuildBlock inv_flightBlock)

lemma inv_loop: "round_inv k s \<Longrightarrow> round_inv k (loop level rnd elapsed s)"
  by (simp add: loop_def Let_def inv_update)

lemma inv_step: "round_inv k s \<Longrightarrow> round_inv k (step (LEVELS k) e s)"
  by (cases e)
     (simp_all add: inv_onDown inv_onUp inv_down inv_move inv_up handlePlaceStone_def
        inv_tryPlaceStone inv_heldDir inv_handleMove inv_paused inv_startGame inv_resetRound
        inv_loop)

lemma reachable_inv: "reachable k s \<Longrightarrow> round_inv k s"
  by (induction rule: reachable.induct) (simp_all add: inv_initial inv_resetRound inv_step)

subsection \<open>What the handlers change\<close>

lemma flightBlock_cases:
  "flightBlock rnd dt s =
    (let s1 = s\<lparr>ball := (ball s)\<lparr>pos := ballNext dt s\<rparr>, ballVel := velNext s\<rparr>;
         hit = (\<not> pileCollapsed s \<and>
                segmentCircleIntersect (pos (ball s)) (ballNext dt s) pilePos pileRadius);
         s2 = (if hit
               then s1\<lparr>pileCollapsed := True,
                       metrics := (metrics s)\<lparr>score := score (metrics s) + 10\<rparr>,
                       opponent := (opponent s)\<lparr>pos := randomEdgeSpawn BASE_W BASE_H rnd\<rparr>,
                       phase := Rebuild,
                       ballActive := False\<rparr>
               else s1)
     in if ballEnds dt s then
          (if hit \<or> pileCollapsed s then s2\<lparr>ballActive := False, phase := Rebuild\<rparr>
           else s2\<lparr>ballActive := False,
                   metrics := (metrics s)\<lparr>attemptsLeft := attemptsLeft (metrics s) - 1\<rparr>,
                   phase := (if attemptsLeft (metrics s) - 1 > 0 then Aim else Lose)\<rparr>)
        else s2)"
  by (simp add: flightBlock_def Let_def ballNext_def velNext_def ballEnds_def)

lemma update_flight:
  "phase s = Flight \<Longrightarrow> ballActive s \<Longrightarrow> update level rnd dt s = flightBlock rnd dt s"
  by (simp add: update_def)

lemma update_rebuild:
  "phase s = Rebuild \<Longrightarrow> update level rnd dt s = rebuildBlock level dt s"
  by (simp add: update_def)

lemma rebuildBlock_keeps:
  "pileCollapsed (rebuildBlock level dt s) = pileCollapsed s"
  "metrics (rebuildBlock level dt s) = metrics s"
  by (simp_all add: rebuildBlock_def Let_def)

lemma tryPlaceStone_keeps:
  "pileCollapsed (tryPlaceStone s) = pileCollapsed s"
  "attemptsLeft (metrics (tryPlaceStone s)) = attemptsLeft (metrics s)"
  "stonesTotal (metrics (tryPlaceStone s)) = stonesTotal (metrics s)"
  "stonesPlaced (metrics s) \<le> stonesPlaced (metrics (tryPlaceStone s))"
  by (simp_all add: tryPlaceStone_def Let_def)

lemma tryPlaceStone_keys:
  "tryPlaceStone (s\<lparr>keys := ks\<rparr>) = (tryPlaceStone s)\<lparr>keys := ks\<rparr>"
  by (simp add: tryPlaceStone_def Let_def)

lemma update_collapsed:
  "pileCollapsed (update level rnd dt s) \<longleftrightarrow> pileCollapsed s \<or> hitsPile dt s"
proof (cases "phase s = Flight \<and> ballActive s")
  case True
  then show ?thesis
    by (simp add: update_flight flightBlock_cases Let_def hitsPile_def)
next
  case False
  then show ?thesis
    by (auto simp: update_def rebuildBlock_keeps hitsPile_def)
qed

lemma update_attempts:
  "attemptsLeft (metrics (update level rnd dt s)) =
     (if failedThrow dt s then attemptsLeft (metrics s) - 1 else attemptsLeft (metrics s))"
proof (cases "phase s = Flight \<and> ballActive s")
  case True
  then show ?thesis
    by (simp add: update_flight flightBlock_cases Let_def failedThrow_def)
next
  case False
  then show ?thesis
    by (auto simp: update_def rebuildBlock_keeps failedThrow_def)
qed

lemma update_stones:
  "stonesPlaced (metrics (update level rnd dt s)) = stonesPlaced (metrics s)"
  "stonesTotal (metrics (update level rnd dt s)) = stonesTotal (metrics s)"
proof -
  have "stonesPlaced (metrics (update level rnd dt s)) = stonesPlaced (metrics s)
      \<and> stonesTotal (metrics (update level rnd dt s)) = stonesTotal (metrics s)"
  proof (cases "phase s = Flight \<and> ballActive s")
    case True
    then show ?thesis by (simp add: update_flight flightBlock_cases Let_def)
  next
    case False
    then show ?thesis by (auto simp: update_def rebuildBlock_keeps)
  qed
  then show "stonesPlaced (metrics (update level rnd dt s)) = stonesPlaced (metrics s)"
    and "stonesTotal (metrics (update level rnd dt s)) = stonesTotal (metrics s)" by simp_all
qed

lemma update_hit:
  assumes "hitsPile dt s"
  shows "pileCollapsed (update level rnd dt s)"
    and "score (metrics (update level rnd dt s)) = score (metrics s) + 10"
    and "phase (update level rnd dt s) = Rebuild"
    and "ballActive (update level rnd dt s) = False"
    and "pos (opponent (update level rnd dt s)) = randomEdgeSpawn BASE_W BASE_H rnd"
  using assms by (simp_all add: hitsPile_def update_flight flightBlock_cases Let_def)

lemma update_failed:
  assumes "failedThrow dt s"
  shows "phase (update level rnd dt s) = (if attemptsLeft (metrics s) - 1 > 0 then Aim else Lose)"
    and "score (metrics (update level rnd dt s)) = score (metrics s)"
    and "pileCollapsed (update level rnd dt s) = False"
  using assms by (simp_all add: failedThrow_def update_flight flightBlock_cases Let_def)

lemma step_collapsed:
  "\<not> roundStart e \<Longrightarrow>
     pileCollapsed (step level e s) \<longleftrightarrow> pileCollapsed s \<or> collapseAward e s"
  by (cases e)
     (simp_all add: onDown_def onUp_def down_def move_def up_def handlePlaceStone_def
        handleMove_def loop_def Let_def tryPlaceStone_keys tryPlaceStone_keeps update_collapsed)

lemma step_attempts:
  "\<not> roundStart e \<Longrightarrow>
     attemptsLeft (metrics (step level e s)) =
       (if attemptLost e s then attemptsLeft (metrics s) - 1 else attemptsLeft (metrics s))"
  by (cases e)
     (simp_all add: onDown_def onUp_def down_def move_def up_def handlePlaceStone_def
        handleMove_def loop_def Let_def tryPlaceStone_keys tryPlaceStone_keeps update_attempts)

lemma step_stones:
  "\<not> roundStart e \<Longrightarrow> stonesPlaced (metrics s) \<le> stonesPlaced (metrics (step level e s))"
  by (cases e)
     (simp_all add: onDown_def onUp_def down_def move_def up_def handlePlaceStone_def
        handleMove_def loop_def Let_def tryPlaceStone_keys tryPlaceStone_keeps update_stones)

lemma awards_collapsed:
  "pileCollapsed s \<Longrightarrow> \<forall>e \<in> set es. \<not> roundStart e \<Longrightarrow> awards level es s = 0"
proof (induction es arbitrary: s)
  case Nil
  show ?case by simp
next
  case (Cons e es)
  have no: "\<not> collapseAward e s"
    using Cons.prems(1) by (cases e) (simp_all add: hitsPile_def)
  have "pileCollapsed (step level e s)"
    using Cons.prems by (simp add: step_collapsed)
  then have "awards level es (step level e s) = 0"
    using Cons.prems(2) by (intro Cons.IH) simp_all
  with no show ?case by simp
qed

lemma awards_le_1:
  "\<forall>e \<in> set es. \<not> roundStart e \<Longrightarrow> awards level es s \<le> 1"
proof (induction es arbitrary: s)
  case Nil
  show ?case by simp
next
  case (Cons e es)
  show ?case
  proof (cases "collapseAward e s")
    case True
    then have "pileCollapsed (step level e s)"
      using Cons.prems by (simp add: step_collapsed)
    then have "awards level es (step level e s) = 0"
      using Cons.prems by (intro awards_collapsed) simp_all
    with True show ?thesis by simp
  next
    case False
    have "awards level es (step level e s) \<le> 1"
      using Cons.prems by (intro Cons.IH) simp_all
    with False show ?thesis by simp
  qed
qed

lemma run_stones:
  "\<forall>e \<in> set es. \<not> roundStart e \<Longrightarrow> stonesPlaced (metrics s) \<le> stonesPlaced (metrics (run level es s))"
proof (induction es arbitrary: s)
  case Nil
  show ?case by simp
next
  case (Cons e es)
  have "stonesPlaced (metrics s) \<le> stonesPlaced (metrics (step level e s))"
    using Cons.prems by (simp add: step_stones)
  also have "\<dots> \<le> stonesPlaced (metrics (run level es (step level e s)))"
    using Cons.prems by (intro Cons.IH) simp_all
  finally show ?case by simp
qed

subsection \<open>The motion of the player\<close>

lemma dist_vec_triangle: "dist_vec a c \<le> dist_vec a b + dist_vec b c"
proof -
  have "sqrt (((x a - x b) + (x b - x c))\<^sup>2 + ((y a - y b) + (y b - y c))\<^sup>2)
      \<le> sqrt ((x a - x b)\<^sup>2 + (y a - y b)\<^sup>2) + sqrt ((x b - x c)\<^sup>2 + (y b - y c)\<^sup>2)"
    by (rule real_sqrt_sum_squares_triangle_ineq)
  then show ?thesis by (simp add: dist_vec_def power2_eq_square)
qed

lemma dist_vec_le_sq:
  assumes c: "0 \<le> c"
    and s: "(x a - x b) * (x a - x b) + (y a - y b) * (y a - y b) \<le> c * c"
  shows "dist_vec a b \<le> c"
  unfolding dist_vec_def using sqrt_le_iff' [OF sum_sq_nonneg, of "x a - x b" "y a - y b" c] c s
  by simp

lemma sq_le_of_abs_le: "\<bar>u\<bar> \<le> v \<Longrightarrow> (u::real) * u \<le> v * v"
  using abs_le_square_iff [of u v] by (simp add: power2_eq_square)

lemma clamp_near: "a \<le> p \<Longrightarrow> p \<le> b \<Longrightarrow> \<bar>clamp (p + d) a b - p\<bar> \<le> \<bar>d\<bar>"
  by (simp add: clamp_def max_def min_def)

lemma norm_vec_unit_or_zero:
  "norm_vec v = \<lparr>x = 0, y = 0\<rparr> \<or> len (norm_vec v) = 1"
  using norm_vec_zero [of v] len_norm_vec [of v] by blast

lemma norm_vec_sq_le_1: "x (norm_vec v) * x (norm_vec v) + y (norm_vec v) * y (norm_vec v) \<le> 1"
proof -
  from norm_vec_unit_or_zero [of v] show ?thesis
  proof
    assume "norm_vec v = \<lparr>x = 0, y = 0\<rparr>"
    then show ?thesis by simp
  next
    assume "len (norm_vec v) = 1"
    then have "sqrt (x (norm_vec v) * x (norm_vec v) + y (norm_vec v) * y (norm_vec v)) = sqrt 1"
      by (simp add: len_def)
    then show ?thesis by (simp only: real_sqrt_eq_iff)
  qed
qed

lemma inField_keyStep: "inField (keyStep level dt k p)"
  by (simp add: inField_def keyStep_def Let_def clamp_def BASE_W_def BASE_H_def)

lemma inField_heldStep:
  assumes "inField p" and "0 \<le> playerSpeed level * dt"
  shows "inField (heldStep level dt held p)"
proof (cases held)
  case None
  then show ?thesis using assms by (simp add: heldStep_def)
next
  case (Some d)
  then show ?thesis using assms
    by (cases d) (auto simp: heldStep_def inField_def BASE_W_def BASE_H_def)
qed

lemma keyStep_dist:
  assumes p: "inField p" and c: "0 \<le> playerSpeed level * dt"
  shows "dist_vec (keyStep level dt k p) p \<le> playerSpeed level * dt"
proof -
  let ?u = "norm_vec (keyMove k)" and ?c = "playerSpeed level * dt"
  let ?q = "keyStep level dt k p"
  have xq: "x ?q = clamp (x p + x ?u * ?c) 10 (BASE_W - 10)"
    and yq: "y ?q = clamp (y p + y ?u * ?c) 10 (BASE_H - 10)"
    by (simp_all add: keyStep_def Let_def mult.assoc)
  have dx: "\<bar>x ?q - x p\<bar> \<le> \<bar>x ?u * ?c\<bar>"
    unfolding xq using p by (intro clamp_near) (simp_all add: inField_def)
  have dy: "\<bar>y ?q - y p\<bar> \<le> \<bar>y ?u * ?c\<bar>"
    unfolding yq using p by (intro clamp_near) (simp_all add: inField_def)
  have "(x ?q - x p) * (x ?q - x p) + (y ?q - y p) * (y ?q - y p)
      \<le> \<bar>x ?u * ?c\<bar> * \<bar>x ?u * ?c\<bar> + \<bar>y ?u * ?c\<bar> * \<bar>y ?u * ?c\<bar>"
    by (intro add_mono sq_le_of_abs_le dx dy)
  also have "\<dots> = (x ?u * x ?u + y ?u * y ?u) * (?c * ?c)"
    by (simp add: algebra_simps abs_mult_self_eq)
  also have "\<dots> \<le> 1 * (?c * ?c)"
    by (intro mult_right_mono norm_vec_sq_le_1) simp
  finally show ?thesis using c by (intro dist_vec_le_sq) simp_all
qed

lemma heldStep_dist:
  assumes p: "inField p" and c: "0 \<le> playerSpeed level * dt"
  shows "dist_vec (heldStep level dt held p) p \<le> playerSpeed level * dt"
proof (cases held)
  case None
  then show ?thesis using c by (simp add: heldStep_def dist_vec_def)
next
  case (Some d)
  let ?c = "playerSpeed level * dt"
  let ?q = "heldStep level dt held p"
  have "\<bar>x ?q - x p\<bar> \<le> ?c \<and> y ?q = y p \<or> \<bar>y ?q - y p\<bar> \<le> ?c \<and> x ?q = x p"
    using Some p c by (cases d) (auto simp: heldStep_def inField_def)
  then have "(x ?q - x p) * (x ?q - x p) + (y ?q - y p) * (y ?q - y p) \<le> ?c * ?c"
    by (auto dest: sq_le_of_abs_le)
  then show ?thesis using c by (intro dist_vec_le_sq) simp_all
qed

lemma keyStep_still: "inField p \<Longrightarrow> keyMove k = \<lparr>x = 0, y = 0\<rparr> \<Longrightarrow> keyStep level dt k p = p"
  by (simp add: keyStep_def Let_def norm_vec_def len_def clamp_def inField_def)

lemma rebuild_player:
  "phase s = Rebuild \<Longrightarrow>
     pos (player (update level rnd dt s))
       = heldStep level dt (heldDir s) (keyStep level dt (keys s) (pos (player s)))"
  by (simp add: update_rebuild rebuildBlock_def Let_def)

subsection \<open>The game at the beginner level\<close>

lemma run_append: "run level (es @ fs) s = run level fs (run level es s)"
  by (induction es arbitrary: s) simp_all

lemma run_replicate_step:
  "run level (replicate n e) (step level e s) = step level e (run level (replicate n e) s)"
  by (induction n arbitrary: s) simp_all

lemma run_replicate_Suc:
  "run level (replicate (Suc n) e) s = step level e (run level (replicate n e) s)"
  by (simp add: run_replicate_step)

lemma reachable_run: "reachable k s \<Longrightarrow> reachable k (run (LEVELS k) es s)"
  by (induction es arbitrary: s) (simp_all add: reach_step)

lemma thrown_eq:
  "thrown = (resetRound (LEVELS beginner) (0, 0) False (initial (LEVELS beginner)))
     \<lparr>dragging := False, dragStart := \<lparr>x = 130, y = 450\<rparr>, dragCurrent := \<lparr>x = 430, y = 290\<rparr>,
      ballVel := \<lparr>x = 9000 / 17, y = - (4800 / 17)\<rparr>, ballActive := True, phase := Flight\<rparr>"
proof -
  have l: "len \<lparr>x = 300, y = - 160\<rparr> = 340" by (rule len_eq) simp_all
  show ?thesis
    by (simp add: thrown_def startGame_def down_def up_def Let_def resetRound_def initial_def
        sub_def l norm_vec_def mul_def clamp_def throwPowerScale_def maxThrowPower_def BASE_H_def)
qed

lemma flying_fields:
  "phase (flying p v) = Flight" "ballActive (flying p v)" "\<not> paused (flying p v)"
  "\<not> pileCollapsed (flying p v)" "pos (ball (flying p v)) = p" "ballVel (flying p v) = v"
  "metrics (flying p v) = \<lparr>score = 0, attemptsLeft = 3, stonesPlaced = 0, stonesTotal = 5\<rparr>"
  "pos (player (flying p v)) = \<lparr>x = 130, y = 450\<rparr>" "heldDir (flying p v) = None"
  "keys (flying p v) = (\<lambda>k. False)"
  by (simp_all add: flying_def thrown_eq resetRound_def Let_def initial_def BASE_H_def)

lemma thrown_flying: "thrown = flying (ballAt 0) (velAt 0)"
  by (simp add: flying_def ballAt_def velAt_def thrown_eq resetRound_def Let_def initial_def
      BASE_H_def)

lemma flying_next:
  "ballNext (1 / 20) (flying (ballAt n) (velAt n)) = ballAt (Suc n)"
  "velNext (flying (ballAt n) (velAt n)) = velAt (Suc n)"
proof -
  have "x (ballAt n) + x (velAt n) * (1 / 20) = x (ballAt (Suc n))"
    and "y (ballAt n) + y (velAt n) * (1 / 20) = y (ballAt (Suc n))"
    by (simp_all add: ballAt_def velAt_def) (simp_all add: field_simps)
  then show "ballNext (1 / 20) (flying (ballAt n) (velAt n)) = ballAt (Suc n)"
    by (simp add: ballNext_def flying_fields)
  show "velNext (flying (ballAt n) (velAt n)) = velAt (Suc n)"
    by (simp add: velNext_def flying_fields velAt_def ballFriction_def)
qed

lemma len_less_iff: "len v < t \<longleftrightarrow> 0 < t \<and> x v * x v + y v * y v < t * t"
  unfolding len_def by (rule sqrt_less_iff') (rule sum_sq_nonneg)

lemma frames_cases:
  assumes "n < (12::nat)"
  obtains "n = 0" | "n = 1" | "n = 2" | "n = 3" | "n = 4" | "n = 5"
    | "n = 6" | "n = 7" | "n = 8" | "n = 9" | "n = 10" | "n = 11"
  using assms by (auto simp: less_Suc_eq eval_nat_numeral)

lemma flying_free:
  assumes "n < 12"
  shows "\<not> segmentCircleIntersect (ballAt n) (ballAt (Suc n)) pilePos pileRadius"
    and "\<not> ballEnds (1 / 20) (flying (ballAt n) (velAt n))"
proof -
  have e: "ballEnds (1 / 20) (flying (ballAt n) (velAt n)) \<longleftrightarrow>
      len (velAt (Suc n)) < 20 \<or> x (ballAt (Suc n)) < - 50 \<or> x (ballAt (Suc n)) > 950
      \<or> y (ballAt (Suc n)) < - 50 \<or> y (ballAt (Suc n)) > 590"
    by (simp add: ballEnds_def flying_next ballStopSpeed_def BASE_W_def BASE_H_def)
  have "\<not> segmentCircleIntersect (ballAt n) (ballAt (Suc n)) pilePos pileRadius
      \<and> \<not> ballEnds (1 / 20) (flying (ballAt n) (velAt n))"
    unfolding e
    by (rule frames_cases [OF assms];
      simp add: segmentCircleIntersect_iff crossing_def seg_a_def seg_b_def seg_c_def
        len_less_iff ballAt_def velAt_def pilePos_def pileRadius_def BASE_W_def BASE_H_def
        power_divide)
  then show "\<not> segmentCircleIntersect (ballAt n) (ballAt (Suc n)) pilePos pileRadius"
    and "\<not> ballEnds (1 / 20) (flying (ballAt n) (velAt n))" by simp_all
qed

lemma flying_step:
  assumes "n < 12"
  shows "step (LEVELS beginner) tick (flying (ballAt n) (velAt n))
           = flying (ballAt (Suc n)) (velAt (Suc n))"
proof -
  let ?s = "flying (ballAt n) (velAt n)"
  have "update (LEVELS beginner) (1 / 4, 1 / 2) (1 / 20) ?s
      = flightBlock (1 / 4, 1 / 2) (1 / 20) ?s"
    by (rule update_flight) (simp_all add: flying_fields)
  also have "\<dots> = ?s\<lparr>ball := (ball ?s)\<lparr>pos := ballAt (Suc n)\<rparr>, ballVel := velAt (Suc n)\<rparr>"
    using flying_free [OF assms]
    by (simp add: flightBlock_cases Let_def flying_next flying_fields)
  also have "\<dots> = flying (ballAt (Suc n)) (velAt (Suc n))"
    by (simp add: flying_def)
  finally show ?thesis by (simp add: tick_def loop_def flying_fields)
qed

lemma flying_run:
  "n \<le> 12 \<Longrightarrow> run (LEVELS beginner) (replicate n tick) thrown = flying (ballAt n) (velAt n)"
proof (induction n)
  case 0
  show ?case by (simp add: thrown_flying)
next
  case (Suc n)
  then have n: "n < 12" and ih: "run (LEVELS beginner) (replicate n tick) thrown
      = flying (ballAt n) (velAt n)" by simp_all
  have "run (LEVELS beginner) (replicate (Suc n) tick) thrown
      = step (LEVELS beginner) tick (run (LEVELS beginner) (replicate n tick) thrown)"
    by (rule run_replicate_Suc)
  also have "\<dots> = flying (ballAt (Suc n)) (velAt (Suc n))"
    unfolding ih by (rule flying_step [OF n])
  finally show ?case .
qed

lemma flying_hit:
  "segmentCircleIntersect (ballAt 12) (ballAt 13) pilePos pileRadius"
  "\<not> ballEnds (1 / 20) (flying (ballAt 12) (velAt 12))"
proof -
  have n: "ballNext (1 / 20) (flying (ballAt 12) (velAt 12)) = ballAt 13"
    "velNext (flying (ballAt 12) (velAt 12)) = velAt 13"
    using flying_next [of 12] by simp_all
  show "segmentCircleIntersect (ballAt 12) (ballAt 13) pilePos pileRadius"
    by (simp add: segmentCircleIntersect_iff crossing_def seg_a_def seg_b_def seg_c_def
        ballAt_def pilePos_def pileRadius_def BASE_W_def BASE_H_def power_divide)
  show "\<not> ballEnds (1 / 20) (flying (ballAt 12) (velAt 12))"
    unfolding ballEnds_def n
    by (simp add: len_less_iff ballAt_def velAt_def ballStopSpeed_def BASE_W_def BASE_H_def
        power_divide)
qed

lemma norm_vec_x_ge: "- 1 \<le> x (norm_vec v)"
proof -
  have "0 \<le> y (norm_vec v) * y (norm_vec v)" by simp
  then have "x (norm_vec v) * x (norm_vec v) \<le> 1 * 1"
    using norm_vec_sq_le_1 [of v] by linarith
  then have "\<bar>x (norm_vec v)\<bar> \<le> \<bar>1\<bar>"
    by (simp only: abs_le_square_iff power2_eq_square)
  then show ?thesis by simp
qed

lemma dist_vec_ge_x: "x q - x p \<le> dist_vec p q"
proof -
  have "(x q - x p) * (x q - x p) = (x p - x q) * (x p - x q)"
    by (simp add: algebra_simps)
  moreover have "0 \<le> (y p - y q) * (y p - y q)" by simp
  ultimately have "(x q - x p) * (x q - x p)
      \<le> (x p - x q) * (x p - x q) + (y p - y q) * (y p - y q)"
    by linarith
  then show ?thesis
    unfolding dist_vec_def by (subst le_sqrt_iff' [OF sum_sq_nonneg]) simp
qed

lemma hit_rebuilding:
  "rebuilding (\<lambda>k. False) \<lparr>x = 130, y = 450\<rparr> 880 0
     (step (LEVELS beginner) tick (flying (ballAt 12) (velAt 12)))"
proof -
  let ?s = "flying (ballAt 12) (velAt 12)"
  have n: "ballNext (1 / 20) ?s = ballAt 13" using flying_next(1) [of 12] by simp
  have sp: "randomEdgeSpawn BASE_W BASE_H (1 / 4, 1 / 2) = \<lparr>x = 880, y = 270\<rparr>"
    by (simp add: randomEdgeSpawn_def Let_def BASE_W_def BASE_H_def)
  have "update (LEVELS beginner) (1 / 4, 1 / 2) (1 / 20) ?s
      = flightBlock (1 / 4, 1 / 2) (1 / 20) ?s"
    by (rule update_flight) (simp_all add: flying_fields)
  then have "step (LEVELS beginner) tick ?s = flightBlock (1 / 4, 1 / 2) (1 / 20) ?s"
    by (simp add: tick_def loop_def flying_fields)
  then show ?thesis
    using flying_hit
    by (simp add: rebuilding_def flightBlock_cases Let_def n flying_fields sp)
qed

lemma rebuilding_tick:
  assumes r: "rebuilding K p b n s"
    and p': "keyStep (LEVELS beginner) (1 / 20) K p = p'"
    and far: "x p' + 22 + 9 / 2 < b"
  shows "rebuilding K p' (b - 9 / 2) n (step (LEVELS beginner) tick s)"
proof -
  let ?o = "pos (opponent s)"
  let ?dir = "norm_vec (sub p' ?o)"
  let ?q = "\<lparr>x = x ?o + x ?dir * 90 * (1 / 20), y = y ?o + y ?dir * 90 * (1 / 20)\<rparr>"
  have f: "phase s = Rebuild" "\<not> paused s" "heldDir s = None" "keys s = K" "pos (player s) = p"
    "b \<le> x ?o" using r by (simp_all add: rebuilding_def)
  have xq: "x ?o - 9 / 2 \<le> x ?q" using norm_vec_x_ge [of "sub p' ?o"] by simp
  have "22 < x ?q - x p'" using xq far f(6) by linarith
  also have "\<dots> \<le> dist_vec p' ?q" by (rule dist_vec_ge_x)
  finally have tag: "\<not> dist_vec p' ?q \<le> tagRange" by (simp add: tagRange_def)
  have "step (LEVELS beginner) tick s = rebuildBlock (LEVELS beginner) (1 / 20) s"
    using f(1,2) by (simp add: tick_def loop_def update_rebuild)
  also have "\<dots> = s\<lparr>player := (player s)\<lparr>pos := p'\<rparr>, opponent := (opponent s)\<lparr>pos := ?q\<rparr>\<rparr>"
    using tag p' by (simp add: rebuildBlock_def Let_def f heldStep_def)
  finally show ?thesis using r xq by (simp add: rebuilding_def)
qed

lemma rebuilding_keys:
  "rebuilding K p b n s \<Longrightarrow> key \<noteq> ''p'' \<Longrightarrow> code \<noteq> ''Space'' \<Longrightarrow>
     rebuilding (K(key := True)) p b n (step (LEVELS beginner) (KeyDown key code) s)"
  "rebuilding K p b n s \<Longrightarrow>
     rebuilding (K(key := False)) p b n (step (LEVELS beginner) (KeyUp key) s)"
  by (auto simp: rebuilding_def onDown_def onUp_def Let_def)

lemma walk_right:
  assumes "rebuilding K \<lparr>x = px, y = py\<rparr> b m s" and "keyMove K = \<lparr>x = 1, y = 0\<rparr>"
    and "10 \<le> px" and "10 \<le> py" and "py \<le> 530"
    and "px + 8 * real n \<le> 890" and "px + 8 * real n + 22 + 9 / 2 * real n < b"
  shows "rebuilding K \<lparr>x = px + 8 * real n, y = py\<rparr> (b - 9 / 2 * real n) m
           (run (LEVELS beginner) (replicate n tick) s)"
  using assms
proof (induction n arbitrary: s px b)
  case 0
  then show ?case by simp
next
  case (Suc n)
  have nv: "norm_vec \<lparr>x = 1, y = 0\<rparr> = \<lparr>x = 1, y = 0\<rparr>" by (simp add: norm_vec_def len_def)
  have k: "keyStep (LEVELS beginner) (1 / 20) K \<lparr>x = px, y = py\<rparr> = \<lparr>x = px + 8, y = py\<rparr>"
    using Suc.prems(2-6)
    by (simp add: keyStep_def Let_def nv clamp_def BASE_W_def BASE_H_def)
  have sn: "real (Suc n) = real n + 1" and n0: "0 \<le> real n" by simp_all
  have far: "px + 8 + 22 + 9 / 2 < b" using Suc.prems(7) sn n0 by argo
  have one: "rebuilding K \<lparr>x = px + 8, y = py\<rparr> (b - 9 / 2) m (step (LEVELS beginner) tick s)"
    using Suc.prems(1) k by (rule rebuilding_tick) (use far in simp)
  have a: "10 \<le> px + 8" using Suc.prems(3) by simp
  have b: "px + 8 + 8 * real n \<le> 890" using Suc.prems(6) sn by argo
  have c: "px + 8 + 8 * real n + 22 + 9 / 2 * real n < b - 9 / 2" using Suc.prems(7) sn by argo
  have r: "rebuilding K \<lparr>x = px + 8 + 8 * real n, y = py\<rparr> (b - 9 / 2 - 9 / 2 * real n) m
      (run (LEVELS beginner) (replicate n tick) (step (LEVELS beginner) tick s))"
    by (rule Suc.IH [OF one Suc.prems(2) a Suc.prems(4,5) b c])
  have e: "px + 8 * real (Suc n) = px + 8 + 8 * real n"
    "b - 9 / 2 * real (Suc n) = b - 9 / 2 - 9 / 2 * real n" using sn by argo+
  show ?case unfolding e using r by (simp only: replicate_Suc run.simps)
qed

lemma walk_up:
  assumes "rebuilding K \<lparr>x = px, y = py\<rparr> b m s" and "keyMove K = \<lparr>x = 0, y = - 1\<rparr>"
    and "10 \<le> px" and "px \<le> 890" and "py \<le> 530"
    and "10 \<le> py - 8 * real n" and "px + 22 + 9 / 2 * real n < b"
  shows "rebuilding K \<lparr>x = px, y = py - 8 * real n\<rparr> (b - 9 / 2 * real n) m
           (run (LEVELS beginner) (replicate n tick) s)"
  using assms
proof (induction n arbitrary: s py b)
  case 0
  then show ?case by simp
next
  case (Suc n)
  have nv: "norm_vec \<lparr>x = 0, y = - 1\<rparr> = \<lparr>x = 0, y = - 1\<rparr>" by (simp add: norm_vec_def len_def)
  have k: "keyStep (LEVELS beginner) (1 / 20) K \<lparr>x = px, y = py\<rparr> = \<lparr>x = px, y = py - 8\<rparr>"
    using Suc.prems(2-6)
    by (simp add: keyStep_def Let_def nv clamp_def BASE_W_def BASE_H_def)
  have sn: "real (Suc n) = real n + 1" and n0: "0 \<le> real n" by simp_all
  have far: "px + 22 + 9 / 2 < b" using Suc.prems(7) sn n0 by argo
  have one: "rebuilding K \<lparr>x = px, y = py - 8\<rparr> (b - 9 / 2) m (step (LEVELS beginner) tick s)"
    using Suc.prems(1) k by (rule rebuilding_tick) (use far in simp)
  have a: "py - 8 \<le> 530" using Suc.prems(5) by simp
  have b: "10 \<le> py - 8 - 8 * real n" using Suc.prems(6) sn by argo
  have c: "px + 22 + 9 / 2 * real n < b - 9 / 2" using Suc.prems(7) sn by argo
  have r: "rebuilding K \<lparr>x = px, y = py - 8 - 8 * real n\<rparr> (b - 9 / 2 - 9 / 2 * real n) m
      (run (LEVELS beginner) (replicate n tick) (step (LEVELS beginner) tick s))"
    by (rule Suc.IH [OF one Suc.prems(2,3,4) a b c])
  have e: "py - 8 * real (Suc n) = py - 8 - 8 * real n"
    "b - 9 / 2 * real (Suc n) = b - 9 / 2 - 9 / 2 * real n" using sn by argo+
  show ?case unfolding e using r by (simp only: replicate_Suc run.simps)
qed

lemma rebuilding_place:
  assumes "rebuilding K p b n s" and "dist_vec p pilePos \<le> placeRange" and "n < 4"
  shows "rebuilding K p b (n + 1) (step (LEVELS beginner) PlaceButton s)"
  using assms by (simp add: rebuilding_def handlePlaceStone_def tryPlaceStone_def Let_def)

lemma throw_state:
  "run (LEVELS beginner) throwEvents (initial (LEVELS beginner)) = flying (ballAt 12) (velAt 12)"
proof -
  have "run (LEVELS beginner) throwEvents (initial (LEVELS beginner))
      = run (LEVELS beginner) (replicate 12 tick) thrown"
    unfolding throwEvents_def run_append thrown_def ..
  also have "\<dots> = flying (ballAt 12) (velAt 12)" by (rule flying_run) simp
  finally show ?thesis .
qed

lemma throw_reachable:
  "reachable beginner (run (LEVELS beginner) (throwEvents @ es) (initial (LEVELS beginner)))"
  by (intro reachable_run reach_initial)

lemma hit_state:
  "rebuilding (\<lambda>k. False) \<lparr>x = 130, y = 450\<rparr> 880 0
     (run (LEVELS beginner) (throwEvents @ [tick]) (initial (LEVELS beginner)))"
  using hit_rebuilding by (simp only: run_append throw_state run.simps)

lemma walk_state:
  "rebuilding walkKeys \<lparr>x = 450, y = 306\<rparr> 619 0
     (run (LEVELS beginner) (throwEvents @ walkEvents) (initial (LEVELS beginner)))"
proof -
  let ?L = "LEVELS beginner"
  let ?K1 = "(\<lambda>k. False)(''d'' := True)"
  define s1 where "s1 = step ?L tick (flying (ballAt 12) (velAt 12))"
  define s2 where "s2 = step ?L (KeyDown ''d'' ''KeyD'') s1"
  define s3 where "s3 = run ?L (replicate 40 tick) s2"
  define s4 where "s4 = step ?L (KeyUp ''d'') s3"
  define s5 where "s5 = step ?L (KeyDown ''w'' ''KeyW'') s4"
  define s6 where "s6 = run ?L (replicate 18 tick) s5"
  have "run ?L (throwEvents @ walkEvents) (initial ?L) = run ?L walkEvents (flying (ballAt 12) (velAt 12))"
    by (simp only: run_append throw_state)
  also have "\<dots> = s6"
    by (simp only: walkEvents_def run_append run.simps s1_def s2_def s3_def s4_def s5_def s6_def)
  finally have g: "run ?L (throwEvents @ walkEvents) (initial ?L) = s6" .
  have r1: "rebuilding (\<lambda>k. False) \<lparr>x = 130, y = 450\<rparr> 880 0 s1"
    unfolding s1_def by (rule hit_rebuilding)
  have r2: "rebuilding ?K1 \<lparr>x = 130, y = 450\<rparr> 880 0 s2"
    unfolding s2_def by (rule rebuilding_keys(1) [OF r1]) simp_all
  have k1: "keyMove ?K1 = \<lparr>x = 1, y = 0\<rparr>" by (simp add: keyMove_def Let_def)
  have "rebuilding ?K1 \<lparr>x = 130 + 8 * real (40::nat), y = 450\<rparr> (880 - 9 / 2 * real (40::nat)) 0 s3"
    unfolding s3_def by (rule walk_right [OF r2 k1]) simp_all
  then have r3: "rebuilding ?K1 \<lparr>x = 450, y = 450\<rparr> 700 0 s3" by simp
  have r4: "rebuilding (?K1(''d'' := False)) \<lparr>x = 450, y = 450\<rparr> 700 0 s4"
    unfolding s4_def by (rule rebuilding_keys(2) [OF r3])
  have "rebuilding (?K1(''d'' := False, ''w'' := True)) \<lparr>x = 450, y = 450\<rparr> 700 0 s5"
    unfolding s5_def by (rule rebuilding_keys(1) [OF r4]) simp_all
  then have r5: "rebuilding walkKeys \<lparr>x = 450, y = 450\<rparr> 700 0 s5" by (simp only: walkKeys_def)
  have k2: "keyMove walkKeys = \<lparr>x = 0, y = - 1\<rparr>" by (simp add: keyMove_def Let_def walkKeys_def)
  have "rebuilding walkKeys \<lparr>x = 450, y = 450 - 8 * real (18::nat)\<rparr> (700 - 9 / 2 * real (18::nat)) 0 s6"
    unfolding s6_def by (rule walk_up [OF r5 k2]) simp_all
  then have "rebuilding walkKeys \<lparr>x = 450, y = 306\<rparr> 619 0 s6" by simp
  then show ?thesis unfolding g .
qed

lemma near_pile: "dist_vec \<lparr>x = 450, y = 306\<rparr> pilePos \<le> placeRange"
  by (simp add: dist_vec_le_iff placeRange_def seg_c_def pilePos_def BASE_W_def BASE_H_def)

lemma placed_state:
  "n \<le> 4 \<Longrightarrow> rebuilding walkKeys \<lparr>x = 450, y = 306\<rparr> 619 (int n)
     (run (LEVELS beginner) (throwEvents @ walkEvents @ replicate n PlaceButton)
        (initial (LEVELS beginner)))"
proof (induction n)
  case 0
  show ?case using walk_state by simp
next
  case (Suc n)
  let ?L = "LEVELS beginner"
  let ?s = "run ?L (throwEvents @ walkEvents @ replicate n PlaceButton) (initial ?L)"
  have r: "rebuilding walkKeys \<lparr>x = 450, y = 306\<rparr> 619 (int n) ?s"
    using Suc by simp
  have e: "run ?L (throwEvents @ walkEvents @ replicate (Suc n) PlaceButton) (initial ?L)
      = step ?L PlaceButton ?s"
    by (simp only: append_assoc [symmetric] run_append [of _ "throwEvents @ walkEvents"]
        run_replicate_Suc)
  have "rebuilding walkKeys \<lparr>x = 450, y = 306\<rparr> 619 (int n + 1) (step ?L PlaceButton ?s)"
    using r near_pile by (rule rebuilding_place) (use Suc.prems in simp)
  then show ?case unfolding e by (simp add: add.commute)
qed

section \<open>The claims\<close>

text \<open>
  Claim C1. In a reachable state in phase Flight the flight block runs and the pile
  stands, so a motion segment of the ball that intersects the pile circle is a hit
  (\<open>hitsPile\<close>). On a hit the collapsed flag becomes true, the score grows by exactly 10
  and the phase becomes Rebuild. An event that does not start a round leaves the flag as
  it is unless it is a frame with a hit, which sets it: the flag never goes back to false
  within a round; a round start clears it. Hence, along any sequence of events without a
  round start, the collapse branch (and its award of 10) runs at most once.
\<close>

theorem pile_collapse_once:
  "(reachable k s \<and> phase s = Flight \<and>
      segmentCircleIntersect (pos (ball s)) (ballNext dt s) pilePos pileRadius
      \<longrightarrow> hitsPile dt s) \<and>
   (hitsPile dt s \<longrightarrow>
      pileCollapsed (update level rnd dt s) \<and>
      score (metrics (update level rnd dt s)) = score (metrics s) + 10 \<and>
      phase (update level rnd dt s) = Rebuild) \<and>
   (\<not> roundStart e \<longrightarrow>
      pileCollapsed (step level e s) = (pileCollapsed s \<or> collapseAward e s)) \<and>
   (roundStart e \<longrightarrow> pileCollapsed (step level e s) = False) \<and>
   ((\<forall>e \<in> set es. \<not> roundStart e) \<longrightarrow> awards level es s \<le> 1)"
proof -
  have 1: "hitsPile dt s"
    if "reachable k s" "phase s = Flight"
      "segmentCircleIntersect (pos (ball s)) (ballNext dt s) pilePos pileRadius"
    using reachable_inv [OF that(1)] that(2,3)
    by (simp add: round_inv_def pre_collapse_def hitsPile_def)
  have 4: "pileCollapsed (step level e s) = False" if "roundStart e"
    using that by (cases e) (simp_all add: startGame_def resetRound_def Let_def)
  show ?thesis
    using 1 4 update_hit(1-3) [of dt s level rnd] step_collapsed [of e level s]
      awards_le_1 [of es level s]
    by blast
qed

text \<open>
  In the game at the beginner level, after the throw and twelve frames of flight, the
  next frame hits the pile: the score becomes 10 and the phase Rebuild.
\<close>

theorem pile_collapse_once_witness:
  "pileCollapsed (update (LEVELS beginner) (1 / 4, 1 / 2) (1 / 20)
      (run (LEVELS beginner) throwEvents (initial (LEVELS beginner))))
   \<and> score (metrics (update (LEVELS beginner) (1 / 4, 1 / 2) (1 / 20)
      (run (LEVELS beginner) throwEvents (initial (LEVELS beginner))))) = 10
   \<and> phase (update (LEVELS beginner) (1 / 4, 1 / 2) (1 / 20)
      (run (LEVELS beginner) throwEvents (initial (LEVELS beginner)))) = Rebuild
   \<and> awards (LEVELS beginner) [tick, tick]
      (run (LEVELS beginner) throwEvents (initial (LEVELS beginner))) \<le> 1"
proof -
  let ?L = "LEVELS beginner"
  let ?s = "run ?L throwEvents (initial ?L)"
  have s: "?s = flying (ballAt 12) (velAt 12)" by (rule throw_state)
  have r: "reachable beginner ?s" using throw_reachable [of "[]"] by simp
  have ph: "phase ?s = Flight" unfolding s by (rule flying_fields)
  have i: "segmentCircleIntersect (pos (ball ?s)) (ballNext (1 / 20) ?s) pilePos pileRadius"
    unfolding s using flying_hit(1) flying_next(1) [of 12] by (simp add: flying_fields)
  have sc: "score (metrics ?s) = 0" unfolding s by (simp add: flying_fields)
  have es: "\<forall>e \<in> set [tick, tick]. \<not> roundStart e" by (simp add: tick_def)
  note t = pile_collapse_once [where k = beginner and s = ?s and dt = "1 / 20" and level = ?L
      and rnd = "(1 / 4, 1 / 2)" and es = "[tick, tick]"]
  from t r ph i have h: "hitsPile (1 / 20) ?s" by blast
  from t h have a: "pileCollapsed (update ?L (1 / 4, 1 / 2) (1 / 20) ?s)" by blast
  from t h have "score (metrics (update ?L (1 / 4, 1 / 2) (1 / 20) ?s)) = score (metrics ?s) + 10"
    by blast
  then have b: "score (metrics (update ?L (1 / 4, 1 / 2) (1 / 20) ?s)) = 10"
    unfolding sc by simp
  from t h have c: "phase (update ?L (1 / 4, 1 / 2) (1 / 20) ?s) = Rebuild" by blast
  from t es have d: "awards ?L [tick, tick] ?s \<le> 1" by blast
  from a b c d show ?thesis by blast
qed

text \<open>
  Claim C2. In a reachable state in phase Rebuild with the player within the place range
  of the pile centre, a place action (the Place button, a pointer-down or the Space key)
  adds 1 to \<open>stonesPlaced\<close>; if that reaches \<open>stonesTotal\<close> the phase becomes Win and the
  score grows by exactly 50, otherwise phase and score stay. Phase Win is entered in no
  other way: an event that leads from another phase to Win is such a place action that
  placed the last stone.
\<close>

theorem place_stone_win:
  assumes "reachable k s"
  shows
  "(phase s = Rebuild \<and> dist_vec (pos (player s)) pilePos \<le> placeRange \<and> placeAction e \<longrightarrow>
        stonesPlaced (metrics (step (LEVELS k) e s)) = stonesPlaced (metrics s) + 1 \<and>
        (if stonesPlaced (metrics s) + 1 = stonesTotal (metrics s)
         then phase (step (LEVELS k) e s) = Win \<and>
              score (metrics (step (LEVELS k) e s)) = score (metrics s) + 50
         else phase (step (LEVELS k) e s) = Rebuild \<and>
              score (metrics (step (LEVELS k) e s)) = score (metrics s))) \<and>
   (phase s \<noteq> Win \<and> phase (step (LEVELS k) e s) = Win \<longrightarrow>
        placeAction e \<and> phase s = Rebuild \<and>
        dist_vec (pos (player s)) pilePos \<le> placeRange \<and>
        stonesPlaced (metrics (step (LEVELS k) e s)) = stonesPlaced (metrics s) + 1 \<and>
        stonesPlaced (metrics (step (LEVELS k) e s)) = stonesTotal (metrics s) \<and>
        score (metrics (step (LEVELS k) e s)) = score (metrics s) + 50)"
proof -
  let ?near = "dist_vec (pos (player s)) pilePos \<le> placeRange"
  note inv = reachable_inv [OF assms]
  have lt: "stonesPlaced (metrics s) < stonesTotal (metrics s)" if "phase s = Rebuild"
    using inv that by (simp add: round_inv_def)
  have place: "stonesPlaced (metrics (tryPlaceStone s)) = stonesPlaced (metrics s) + 1 \<and>
        (if stonesPlaced (metrics s) + 1 = stonesTotal (metrics s)
         then phase (tryPlaceStone s) = Win \<and>
              score (metrics (tryPlaceStone s)) = score (metrics s) + 50
         else phase (tryPlaceStone s) = Rebuild \<and>
              score (metrics (tryPlaceStone s)) = score (metrics s))"
    if "phase s = Rebuild" ?near
    using lt [OF that(1)] that by (simp add: tryPlaceStone_def Let_def)
  have same: "metrics (step (LEVELS k) e s) = metrics (tryPlaceStone s) \<and>
      phase (step (LEVELS k) e s) = phase (tryPlaceStone s)"
    if "placeAction e" "phase s = Rebuild"
    using that
    by (cases e) (simp_all add: handlePlaceStone_def down_def onDown_def Let_def tryPlaceStone_keys)
  have 2: "stonesPlaced (metrics (step (LEVELS k) e s)) = stonesPlaced (metrics s) + 1 \<and>
        (if stonesPlaced (metrics s) + 1 = stonesTotal (metrics s)
         then phase (step (LEVELS k) e s) = Win \<and>
              score (metrics (step (LEVELS k) e s)) = score (metrics s) + 50
         else phase (step (LEVELS k) e s) = Rebuild \<and>
              score (metrics (step (LEVELS k) e s)) = score (metrics s))"
    if "phase s = Rebuild" ?near "placeAction e"
    using place [OF that(1,2)] same [OF that(3,1)] by simp
  have win_place: "phase t = Rebuild \<and> dist_vec (pos (player t)) pilePos \<le> placeRange"
    if "phase t \<noteq> Win" "phase (tryPlaceStone t) = Win" for t
    using that by (auto simp: tryPlaceStone_def Let_def split: if_splits)
  have upd: "phase (update (LEVELS k) rnd dt s) \<noteq> Win" if "phase s \<noteq> Win" for rnd dt
  proof (cases "phase s = Flight \<and> ballActive s")
    case True
    then show ?thesis by (simp add: update_flight flightBlock_cases Let_def)
  next
    case False
    then show ?thesis using that by (auto simp: update_def rebuildBlock_def Let_def)
  qed
  have 3: "placeAction e \<and> phase s = Rebuild \<and> ?near"
    if w: "phase s \<noteq> Win" "phase (step (LEVELS k) e s) = Win"
  proof (cases e)
    case (KeyDown key code)
    with w have "phase (tryPlaceStone s) = Win \<and> code = ''Space''"
      by (auto simp: onDown_def Let_def tryPlaceStone_keys split: if_splits)
    with win_place [OF w(1)] KeyDown show ?thesis by simp
  next
    case (PointerDown p)
    with w have "phase (tryPlaceStone s) = Win"
      by (auto simp: down_def split: if_splits)
    with win_place [OF w(1)] PointerDown show ?thesis by simp
  next
    case PlaceButton
    with w have "phase (tryPlaceStone s) = Win" by (simp add: handlePlaceStone_def)
    with win_place [OF w(1)] PlaceButton show ?thesis by simp
  next
    case (Frame elapsed rnd)
    with w upd show ?thesis by (auto simp: loop_def Let_def split: if_splits)
  qed (use w in \<open>auto simp: onUp_def move_def up_def handleMove_def startGame_def
         resetRound_def Let_def split: if_splits\<close>)
  have 4: "placeAction e \<and> phase s = Rebuild \<and> ?near \<and>
        stonesPlaced (metrics (step (LEVELS k) e s)) = stonesPlaced (metrics s) + 1 \<and>
        stonesPlaced (metrics (step (LEVELS k) e s)) = stonesTotal (metrics s) \<and>
        score (metrics (step (LEVELS k) e s)) = score (metrics s) + 50"
    if w: "phase s \<noteq> Win" "phase (step (LEVELS k) e s) = Win"
  proof -
    note a = 3 [OF w]
    from a have b: "placeAction e" "phase s = Rebuild" ?near by simp_all
    from 2 [OF b(2,3,1)] w(2) show ?thesis using a
      by (simp split: if_splits)
  qed
  show ?thesis using 2 4 by blast
qed

text \<open>
  In the game at the beginner level, after the throw, the walk to the pile and four
  stones placed, the Place button places the fifth stone: the phase becomes Win and the
  score goes from 10 to 60.
\<close>

theorem place_stone_win_witness:
  "stonesPlaced (metrics (step (LEVELS beginner) PlaceButton
      (run (LEVELS beginner) (throwEvents @ walkEvents @ replicate 4 PlaceButton)
         (initial (LEVELS beginner))))) = 5
   \<and> phase (step (LEVELS beginner) PlaceButton
      (run (LEVELS beginner) (throwEvents @ walkEvents @ replicate 4 PlaceButton)
         (initial (LEVELS beginner)))) = Win
   \<and> score (metrics (step (LEVELS beginner) PlaceButton
      (run (LEVELS beginner) (throwEvents @ walkEvents @ replicate 4 PlaceButton)
         (initial (LEVELS beginner))))) = 60"
proof -
  let ?L = "LEVELS beginner"
  let ?s = "run ?L (throwEvents @ walkEvents @ replicate 4 PlaceButton) (initial ?L)"
  have r: "reachable beginner ?s" by (rule throw_reachable)
  have "rebuilding walkKeys \<lparr>x = 450, y = 306\<rparr> 619 (int 4) ?s"
    by (rule placed_state) simp
  then have p: "phase ?s = Rebuild" and q: "pos (player ?s) = \<lparr>x = 450, y = 306\<rparr>"
    and m: "stonesPlaced (metrics ?s) = 4" "stonesTotal (metrics ?s) = 5"
      "score (metrics ?s) = 10"
    by (simp_all add: rebuilding_def)
  have n: "dist_vec (pos (player ?s)) pilePos \<le> placeRange" unfolding q by (rule near_pile)
  have a: "placeAction PlaceButton" by simp
  note t = place_stone_win [OF r, where e = PlaceButton]
  from t p n a have c:
    "stonesPlaced (metrics (step ?L PlaceButton ?s)) = stonesPlaced (metrics ?s) + 1 \<and>
        (if stonesPlaced (metrics ?s) + 1 = stonesTotal (metrics ?s)
         then phase (step ?L PlaceButton ?s) = Win \<and>
              score (metrics (step ?L PlaceButton ?s)) = score (metrics ?s) + 50
         else phase (step ?L PlaceButton ?s) = Rebuild \<and>
              score (metrics (step ?L PlaceButton ?s)) = score (metrics ?s))"
    by blast
  then show ?thesis unfolding m by simp
qed

text \<open>
  Claim C3. In a reachable state in phase Flight the ball is active and the pile stands.
  On a failed throw (a flight tick on which the ball is too slow or out of the field, the
  pile not collapsed and not hit on this tick) \<open>attemptsLeft\<close> goes down by exactly 1 and
  the phase becomes Aim if the new value is positive, Lose otherwise, and then the new
  value is exactly 0. A tick that hits the pile leaves \<open>attemptsLeft\<close> as it is. An event
  that does not start a round changes \<open>attemptsLeft\<close> only if it is a frame with a failed
  throw; a round start sets it to the attempts of the level, which is also the initial
  value, and it never exceeds that.
\<close>

theorem failed_throw_attempts:
  assumes "reachable k s"
  shows "(phase s = Flight \<longrightarrow> ballActive s \<and> \<not> pileCollapsed s) \<and>
     (failedThrow dt s \<longrightarrow>
        attemptsLeft (metrics (update (LEVELS k) rnd dt s)) = attemptsLeft (metrics s) - 1 \<and>
        phase (update (LEVELS k) rnd dt s)
          = (if 0 < attemptsLeft (metrics s) - 1 then Aim else Lose) \<and>
        (phase (update (LEVELS k) rnd dt s) = Lose
           \<longrightarrow> attemptsLeft (metrics (update (LEVELS k) rnd dt s)) = 0)) \<and>
     (hitsPile dt s \<longrightarrow>
        attemptsLeft (metrics (update (LEVELS k) rnd dt s)) = attemptsLeft (metrics s)) \<and>
     (\<not> roundStart e \<longrightarrow>
        attemptsLeft (metrics (step (LEVELS k) e s))
          = (if attemptLost e s then attemptsLeft (metrics s) - 1 else attemptsLeft (metrics s))) \<and>
     (roundStart e \<longrightarrow> attemptsLeft (metrics (step (LEVELS k) e s)) = attempts (LEVELS k)) \<and>
     attemptsLeft (metrics (initial (LEVELS k))) = attempts (LEVELS k) \<and>
     attemptsLeft (metrics s) \<le> attempts (LEVELS k)"
proof -
  note inv = reachable_inv [OF assms]
  have 1: "phase s = Flight \<longrightarrow> ballActive s \<and> \<not> pileCollapsed s"
    using inv by (simp add: round_inv_def pre_collapse_def)
  have 2: "attemptsLeft (metrics (update (LEVELS k) rnd dt s)) = attemptsLeft (metrics s) - 1 \<and>
        phase (update (LEVELS k) rnd dt s)
          = (if 0 < attemptsLeft (metrics s) - 1 then Aim else Lose) \<and>
        (phase (update (LEVELS k) rnd dt s) = Lose
           \<longrightarrow> attemptsLeft (metrics (update (LEVELS k) rnd dt s)) = 0)"
    if f: "failedThrow dt s"
  proof -
    have "1 \<le> attemptsLeft (metrics s)"
      using inv f by (simp add: round_inv_def pre_collapse_def failedThrow_def)
    then show ?thesis
      using f by (simp add: update_attempts update_failed(1))
  qed
  have 3: "attemptsLeft (metrics (update (LEVELS k) rnd dt s)) = attemptsLeft (metrics s)"
    if "hitsPile dt s"
    using that by (simp add: update_attempts) (simp add: hitsPile_def failedThrow_def)
  have 5: "attemptsLeft (metrics (step (LEVELS k) e s)) = attempts (LEVELS k)" if "roundStart e"
    using that by (cases e) (simp_all add: startGame_def resetRound_def Let_def)
  have 6: "attemptsLeft (metrics (initial (LEVELS k))) = attempts (LEVELS k)"
    by (simp add: initial_def)
  have 7: "attemptsLeft (metrics s) \<le> attempts (LEVELS k)"
    using inv by (simp add: round_inv_def)
  show ?thesis
    using 1 2 3 5 6 7 step_attempts [of e "LEVELS k" s] by blast
qed

text \<open>
  A drag of length zero at the beginner level: the ball does not move, the segment is a
  single point away from the pile, the speed 0 is below the stop speed, and the first of
  three attempts is lost.
\<close>

theorem failed_throw_attempts_witness:
  "attemptsLeft (metrics (update (LEVELS beginner) (0, 0) (1 / 20)
      (up (down \<lparr>x = 130, y = 450\<rparr>
         (resetRound (LEVELS beginner) (0, 0) True (initial (LEVELS beginner))))))) = 2
   \<and> phase (update (LEVELS beginner) (0, 0) (1 / 20)
      (up (down \<lparr>x = 130, y = 450\<rparr>
         (resetRound (LEVELS beginner) (0, 0) True (initial (LEVELS beginner)))))) = Aim"
proof -
  let ?r = "resetRound (LEVELS beginner) (0, 0) True (initial (LEVELS beginner))"
  let ?s = "up (down \<lparr>x = 130, y = 450\<rparr> ?r)"
  have "reachable beginner (step (LEVELS beginner) PointerUp
      (step (LEVELS beginner) (PointerDown \<lparr>x = 130, y = 450\<rparr>) ?r))"
    by (intro reach_step reach_round)
  then have r: "reachable beginner ?s" by simp
  have z: "len \<lparr>x = 0, y = 0\<rparr> = 0" by (simp add: len_def)
  have s: "?s = ?r\<lparr>dragging := False, dragStart := \<lparr>x = 130, y = 450\<rparr>,
      dragCurrent := \<lparr>x = 130, y = 450\<rparr>, ballActive := True, phase := Flight\<rparr>"
    by (simp add: up_def down_def resetRound_def Let_def sub_def z norm_vec_def mul_def
        BASE_H_def)
  have a: "attemptsLeft (metrics ?s) = 3" unfolding s by (simp add: resetRound_def Let_def initial_def)
  have n: "ballNext (1 / 20) ?s = pos (ball ?s)"
    unfolding s by (simp add: ballNext_def resetRound_def Let_def)
  have ph: "phase ?s = Flight" "ballActive ?s" "\<not> pileCollapsed ?s"
    unfolding s by (simp_all add: resetRound_def Let_def)
  have bv: "ballVel ?s = \<lparr>x = 0, y = 0\<rparr>"
    unfolding s by (simp add: resetRound_def Let_def)
  have e: "ballEnds (1 / 20) ?s"
    unfolding ballEnds_def velNext_def bv by (simp add: z ballStopSpeed_def)
  have f: "failedThrow (1 / 20) ?s"
    unfolding failedThrow_def n using ph e by (simp add: segmentCircleIntersect_iff)
  note t = failed_throw_attempts [OF r, where dt = "1 / 20" and rnd = "(0, 0)"]
  from t f have "attemptsLeft (metrics (update (LEVELS beginner) (0, 0) (1 / 20) ?s))
      = attemptsLeft (metrics ?s) - 1" by blast
  then have 1: "attemptsLeft (metrics (update (LEVELS beginner) (0, 0) (1 / 20) ?s)) = 2"
    unfolding a by simp
  from t f have "phase (update (LEVELS beginner) (0, 0) (1 / 20) ?s)
          = (if 0 < attemptsLeft (metrics ?s) - 1 then Aim else Lose)" by blast
  then have 2: "phase (update (LEVELS beginner) (0, 0) (1 / 20) ?s) = Aim"
    unfolding a by simp
  from 1 2 show ?thesis by blast
qed

text \<open>
  Claim C4. In every reachable state (from the initial state of the component or from a
  round start out of any state, by any events) \<open>stonesPlaced\<close> lies between 0 and
  \<open>stonesTotal\<close>, and \<open>attemptsLeft\<close> is not negative unless the phase is Win or Lose. No
  event other than a round start lowers \<open>stonesPlaced\<close>, and so no sequence of such events
  does.
\<close>

theorem stones_attempts_invariant:
  assumes "reachable k s"
  shows "0 \<le> stonesPlaced (metrics s) \<and>
     stonesPlaced (metrics s) \<le> stonesTotal (metrics s) \<and>
     (phase s \<noteq> Win \<and> phase s \<noteq> Lose \<longrightarrow> 0 \<le> attemptsLeft (metrics s)) \<and>
     (\<not> roundStart e \<longrightarrow>
        stonesPlaced (metrics s) \<le> stonesPlaced (metrics (step (LEVELS k) e s))) \<and>
     ((\<forall>e \<in> set es. \<not> roundStart e) \<longrightarrow>
        stonesPlaced (metrics s) \<le> stonesPlaced (metrics (run (LEVELS k) es s)))"
proof -
  note inv = reachable_inv [OF assms]
  have 1: "0 \<le> stonesPlaced (metrics s)" "stonesPlaced (metrics s) \<le> stonesTotal (metrics s)"
    using inv by (simp_all add: round_inv_def)
  have 2: "0 \<le> attemptsLeft (metrics s)" if "phase s \<noteq> Win" "phase s \<noteq> Lose"
    using inv that by (cases "phase s") (simp_all add: round_inv_def pre_collapse_def)
  show ?thesis
    using 1 2 step_stones [of e s "LEVELS k"] run_stones [of es s "LEVELS k"] by blast
qed

text \<open>
  In the game at the beginner level, the state after the throw and the walk to the pile,
  followed by four place actions.
\<close>

theorem stones_attempts_invariant_witness:
  "0 \<le> stonesPlaced (metrics (run (LEVELS beginner) (throwEvents @ walkEvents)
        (initial (LEVELS beginner))))
   \<and> stonesPlaced (metrics (run (LEVELS beginner) (throwEvents @ walkEvents)
        (initial (LEVELS beginner))))
       \<le> stonesTotal (metrics (run (LEVELS beginner) (throwEvents @ walkEvents)
        (initial (LEVELS beginner))))
   \<and> 0 \<le> attemptsLeft (metrics (run (LEVELS beginner) (throwEvents @ walkEvents)
        (initial (LEVELS beginner))))
   \<and> stonesPlaced (metrics (run (LEVELS beginner) (throwEvents @ walkEvents)
        (initial (LEVELS beginner))))
       \<le> stonesPlaced (metrics (run (LEVELS beginner) (replicate 4 PlaceButton)
            (run (LEVELS beginner) (throwEvents @ walkEvents) (initial (LEVELS beginner)))))"
proof -
  let ?L = "LEVELS beginner"
  let ?s = "run ?L (throwEvents @ walkEvents) (initial ?L)"
  have r: "reachable beginner ?s" by (rule throw_reachable)
  have p: "phase ?s \<noteq> Win \<and> phase ?s \<noteq> Lose"
    using walk_state by (simp add: rebuilding_def)
  have es: "\<forall>e \<in> set (replicate 4 PlaceButton). \<not> roundStart e" by simp
  note t = stones_attempts_invariant [OF r, where es = "replicate 4 PlaceButton"]
  from t p es show ?thesis by blast
qed

text \<open>
  Claim C5. A drag-end (\<open>up\<close>) in phase Dragging of a reachable state, with drag vector
  \<open>d = dragCurrent - dragStart\<close>: the velocity of the ball has length
  \<open>clamp (len d * 3) 0 600\<close> and the direction of \<open>d\<close> (its normalisation is that of \<open>d\<close>;
  it is the zero vector when \<open>d\<close> is), the ball is put at the player's position, which
  does not move, and the phase becomes Flight.
\<close>

theorem up_throw:
  assumes "reachable k s" and "phase s = Dragging"
  shows "len (ballVel (up s)) = clamp (len (sub (dragCurrent s) (dragStart s)) * 3) 0 600 \<and>
         norm_vec (ballVel (up s)) = norm_vec (sub (dragCurrent s) (dragStart s)) \<and>
         (sub (dragCurrent s) (dragStart s) = \<lparr>x = 0, y = 0\<rparr>
            \<longrightarrow> ballVel (up s) = \<lparr>x = 0, y = 0\<rparr>) \<and>
         pos (ball (up s)) = pos (player (up s)) \<and>
         pos (player (up s)) = pos (player s) \<and>
         phase (up s) = Flight"
proof -
  let ?d = "sub (dragCurrent s) (dragStart s)"
  let ?p = "clamp (len ?d * 3) 0 600"
  have drag: "dragging s"
    using reachable_inv [OF assms(1)] assms(2) by (simp add: round_inv_def)
  have v: "ballVel (up s) = mul (norm_vec ?d) ?p"
    using drag by (simp add: up_def Let_def throwPowerScale_def maxThrowPower_def)
  have rest: "pos (ball (up s)) = pos (player (up s))" "pos (player (up s)) = pos (player s)"
    "phase (up s) = Flight"
    using drag by (simp_all add: up_def Let_def)
  have p0: "0 \<le> ?p" by (simp add: clamp_def)
  show ?thesis
  proof (cases "len ?d = 0")
    case True
    then have "norm_vec ?d = \<lparr>x = 0, y = 0\<rparr>" by (rule norm_vec_zero)
    then have z: "ballVel (up s) = \<lparr>x = 0, y = 0\<rparr>" by (simp add: v mul_def)
    have "len (ballVel (up s)) = 0" unfolding z by (simp add: len_def)
    moreover have "?p = 0" using True by (simp add: clamp_def)
    moreover have "norm_vec (ballVel (up s)) = norm_vec ?d"
      unfolding z using True by (simp add: norm_vec_def len_def)
    ultimately show ?thesis using rest z by simp
  next
    case False
    then have pos: "0 < len ?d" using len_nonneg [of ?d] by simp
    then have pp: "0 < ?p" by (simp add: clamp_def)
    have u: "len (norm_vec ?d) = 1" using False by (rule len_norm_vec)
    have "len (ballVel (up s)) = ?p" using pp by (simp add: v len_mul u)
    moreover have "norm_vec (ballVel (up s)) = norm_vec ?d"
      unfolding v by (rule norm_vec_scaled [OF u pp])
    moreover have "?d \<noteq> \<lparr>x = 0, y = 0\<rparr>" using False by (simp add: len_zero_iff)
    ultimately show ?thesis using rest by simp
  qed
qed

text \<open>
  At the beginner level, a round is started and the pointer goes down at \<open>(430, 50)\<close>: the
  drag vector from the player at \<open>(130, 450)\<close> is \<open>(300, -400)\<close>, of length 500, and the
  throw has the full power 600.
\<close>

theorem up_throw_witness:
  "ballVel (up (down \<lparr>x = 430, y = 50\<rparr>
       (resetRound (LEVELS beginner) (0, 0) True (initial (LEVELS beginner)))))
     = \<lparr>x = 360, y = - 480\<rparr>
   \<and> len (ballVel (up (down \<lparr>x = 430, y = 50\<rparr>
       (resetRound (LEVELS beginner) (0, 0) True (initial (LEVELS beginner)))))) = 600
   \<and> phase (up (down \<lparr>x = 430, y = 50\<rparr>
       (resetRound (LEVELS beginner) (0, 0) True (initial (LEVELS beginner))))) = Flight"
proof -
  let ?s = "down \<lparr>x = 430, y = 50\<rparr>
       (resetRound (LEVELS beginner) (0, 0) True (initial (LEVELS beginner)))"
  have "reachable beginner (step (LEVELS beginner) (PointerDown \<lparr>x = 430, y = 50\<rparr>)
       (resetRound (LEVELS beginner) (0, 0) True (initial (LEVELS beginner))))"
    by (intro reach_step reach_round)
  then have r: "reachable beginner ?s" by simp
  have ph: "phase ?s = Dragging" by (simp add: down_def resetRound_def Let_def)
  have d: "sub (dragCurrent ?s) (dragStart ?s) = \<lparr>x = 300, y = - 400\<rparr>"
    by (simp add: down_def resetRound_def Let_def sub_def BASE_H_def)
  have l: "len \<lparr>x = 300, y = - 400\<rparr> = 500" by (rule len_eq) simp_all
  have v: "ballVel (up ?s) = \<lparr>x = 360, y = - 480\<rparr>"
    by (simp add: up_def Let_def down_def resetRound_def sub_def BASE_H_def l norm_vec_def
        mul_def clamp_def throwPowerScale_def maxThrowPower_def)
  note t = up_throw [OF r ph]
  from t have "len (ballVel (up ?s)) = clamp (len (sub (dragCurrent ?s) (dragStart ?s)) * 3) 0 600"
    by (rule conjunct1)
  also have "\<dots> = 600" unfolding d l by (simp add: clamp_def)
  finally have m: "len (ballVel (up ?s)) = 600" .
  from t have f: "phase (up ?s) = Flight" by blast
  from v m f show ?thesis by blast
qed


text \<open>
  Claim C7, as stated, fails: the rebuild block first moves the player by the normalised
  keyboard vector and then, separately, by the held on-screen button. In the game at the
  beginner level (160 units per second), after the pile has collapsed, with the key \<open>d\<close>
  and the right button both held, a tick of 50 ms moves the player from \<open>(130, 450)\<close> to
  \<open>(146, 450)\<close>: 16 units, twice \<open>playerSpeed\<close> times \<open>dt\<close>.
\<close>

theorem rebuild_player_motion_counterexample:
  "phase (run (LEVELS beginner)
       (throwEvents @ [tick, KeyDown ''d'' ''KeyD'', HoldButton (Some DirRight)])
       (initial (LEVELS beginner))) = Rebuild
   \<and> keys (run (LEVELS beginner)
       (throwEvents @ [tick, KeyDown ''d'' ''KeyD'', HoldButton (Some DirRight)])
       (initial (LEVELS beginner))) ''d''
   \<and> heldDir (run (LEVELS beginner)
       (throwEvents @ [tick, KeyDown ''d'' ''KeyD'', HoldButton (Some DirRight)])
       (initial (LEVELS beginner))) = Some DirRight
   \<and> pos (player (run (LEVELS beginner)
       (throwEvents @ [tick, KeyDown ''d'' ''KeyD'', HoldButton (Some DirRight)])
       (initial (LEVELS beginner)))) = \<lparr>x = 130, y = 450\<rparr>
   \<and> pos (player (update (LEVELS beginner) (1 / 4, 1 / 2) (1 / 20)
       (run (LEVELS beginner)
         (throwEvents @ [tick, KeyDown ''d'' ''KeyD'', HoldButton (Some DirRight)])
         (initial (LEVELS beginner))))) = \<lparr>x = 146, y = 450\<rparr>
   \<and> playerSpeed (LEVELS beginner) * (1 / 20) = 8
   \<and> 8 < dist_vec \<lparr>x = 146, y = 450\<rparr> \<lparr>x = 130, y = 450\<rparr>"
proof -
  let ?L = "LEVELS beginner"
  let ?K = "(\<lambda>k. False)(''d'' := True)"
  let ?s1 = "run ?L (throwEvents @ [tick]) (initial ?L)"
  let ?s = "run ?L (throwEvents @ [tick, KeyDown ''d'' ''KeyD'', HoldButton (Some DirRight)])
       (initial ?L)"
  have e: "?s = (step ?L (KeyDown ''d'' ''KeyD'') ?s1)\<lparr>heldDir := Some DirRight\<rparr>"
    by (simp only: run_append run.simps step.simps)
  have "rebuilding ?K \<lparr>x = 130, y = 450\<rparr> 880 0 (step ?L (KeyDown ''d'' ''KeyD'') ?s1)"
    by (rule rebuilding_keys(1) [OF hit_state]) simp_all
  then have ph: "phase ?s = Rebuild" and ks: "keys ?s = ?K" and hd: "heldDir ?s = Some DirRight"
    and p: "pos (player ?s) = \<lparr>x = 130, y = 450\<rparr>"
    unfolding e by (simp_all add: rebuilding_def)
  have kd: "keys ?s ''d''" unfolding ks by simp
  have km: "keyMove ?K = \<lparr>x = 1, y = 0\<rparr>" by (simp add: keyMove_def Let_def)
  have nv: "norm_vec \<lparr>x = 1, y = 0\<rparr> = \<lparr>x = 1, y = 0\<rparr>" by (simp add: norm_vec_def len_def)
  have k1: "keyStep ?L (1 / 20) ?K \<lparr>x = 130, y = 450\<rparr> = \<lparr>x = 138, y = 450\<rparr>"
    unfolding keyStep_def km nv by (simp add: clamp_def BASE_W_def BASE_H_def)
  have h1: "heldStep ?L (1 / 20) (Some DirRight) \<lparr>x = 138, y = 450\<rparr> = \<lparr>x = 146, y = 450\<rparr>"
    by (simp add: heldStep_def BASE_W_def)
  have "pos (player (update ?L (1 / 4, 1 / 2) (1 / 20) ?s))
      = heldStep ?L (1 / 20) (heldDir ?s) (keyStep ?L (1 / 20) (keys ?s) (pos (player ?s)))"
    using ph by (rule rebuild_player)
  also have "\<dots> = \<lparr>x = 146, y = 450\<rparr>" unfolding p hd ks k1 h1 ..
  finally have r: "pos (player (update ?L (1 / 4, 1 / 2) (1 / 20) ?s)) = \<lparr>x = 146, y = 450\<rparr>" .
  have c8: "playerSpeed ?L * (1 / 20) = 8" by simp
  have d: "8 < dist_vec \<lparr>x = 146, y = 450\<rparr> \<lparr>x = 130, y = 450\<rparr>"
    by (simp add: dist_vec_def less_sqrt_iff')
  from ph kd hd p r c8 d show ?thesis by blast
qed

text \<open>
  Claim C7, amended. On a tick in phase Rebuild (with \<open>playerSpeed\<close> times \<open>dt\<close> not
  negative) the held keys are summed into a vector that is normalised (a unit vector, or
  zero), scaled by \<open>playerSpeed\<close> times \<open>dt\<close> and added to the position, which is clamped
  to the field minus the margin of 10 (\<open>keyStep\<close>); a held on-screen button then moves the
  player a further \<open>playerSpeed\<close> times \<open>dt\<close> in its direction, clamped at the border it
  moves towards (\<open>heldStep\<close>). The resulting position lies in the field minus the margin.
  From a position inside it, the player moves at most twice \<open>playerSpeed\<close> times \<open>dt\<close>, and
  at most \<open>playerSpeed\<close> times \<open>dt\<close> when no button is held or the keys sum to zero.
\<close>

theorem rebuild_player_motion:
  assumes "phase s = Rebuild" and "0 \<le> playerSpeed level * dt"
  shows "pos (player (update level rnd dt s))
           = heldStep level dt (heldDir s) (keyStep level dt (keys s) (pos (player s))) \<and>
         keyStep level dt (keys s) (pos (player s))
           = \<lparr>x = clamp (x (pos (player s))
                  + x (norm_vec (keyMove (keys s))) * playerSpeed level * dt) 10 890,
              y = clamp (y (pos (player s))
                  + y (norm_vec (keyMove (keys s))) * playerSpeed level * dt) 10 530\<rparr> \<and>
         (norm_vec (keyMove (keys s)) = \<lparr>x = 0, y = 0\<rparr>
            \<or> len (norm_vec (keyMove (keys s))) = 1) \<and>
         inField (pos (player (update level rnd dt s))) \<and>
         (inField (pos (player s)) \<longrightarrow>
            dist_vec (pos (player (update level rnd dt s))) (pos (player s))
              \<le> 2 * (playerSpeed level * dt) \<and>
            (heldDir s = None \<or> keyMove (keys s) = \<lparr>x = 0, y = 0\<rparr> \<longrightarrow>
               dist_vec (pos (player (update level rnd dt s))) (pos (player s))
                 \<le> playerSpeed level * dt))"
proof -
  let ?p = "pos (player s)"
  let ?q = "keyStep level dt (keys s) ?p"
  let ?r = "heldStep level dt (heldDir s) ?q"
  let ?c = "playerSpeed level * dt"
  have 1: "pos (player (update level rnd dt s)) = ?r"
    using assms(1) by (rule rebuild_player)
  have 2: "?q = \<lparr>x = clamp (x ?p + x (norm_vec (keyMove (keys s))) * playerSpeed level * dt) 10 890,
                  y = clamp (y ?p + y (norm_vec (keyMove (keys s))) * playerSpeed level * dt) 10 530\<rparr>"
    by (simp add: keyStep_def Let_def BASE_W_def BASE_H_def)
  have q: "inField ?q" by (rule inField_keyStep)
  have 4: "inField ?r" using q assms(2) by (rule inField_heldStep)
  have qr: "dist_vec ?r ?q \<le> ?c" using q assms(2) by (rule heldStep_dist)
  have 5: "dist_vec ?r ?p \<le> 2 * ?c" if p: "inField ?p"
  proof -
    have "dist_vec ?r ?p \<le> dist_vec ?r ?q + dist_vec ?q ?p" by (rule dist_vec_triangle)
    also have "\<dots> \<le> ?c + ?c"
      by (intro add_mono qr keyStep_dist p assms(2))
    also have "\<dots> = 2 * ?c" by simp
    finally show ?thesis .
  qed
  have 6: "dist_vec ?r ?p \<le> ?c"
    if p: "inField ?p" and one: "heldDir s = None \<or> keyMove (keys s) = \<lparr>x = 0, y = 0\<rparr>"
    using one
  proof
    assume "heldDir s = None"
    then have "?r = ?q" by (simp add: heldStep_def)
    then show ?thesis using keyStep_dist [OF p assms(2), of "keys s"] by simp
  next
    assume "keyMove (keys s) = \<lparr>x = 0, y = 0\<rparr>"
    then have "?q = ?p" using p by (intro keyStep_still)
    then show ?thesis using heldStep_dist [OF p assms(2), of "heldDir s"] by simp
  qed
  show ?thesis
    unfolding 1 using 2 norm_vec_unit_or_zero [of "keyMove (keys s)"] 4 5 6 by blast
qed

text \<open>
  In the game at the beginner level, after the pile has collapsed, the key \<open>d\<close> alone
  on a tick of 50 ms: 8 units to the right.
\<close>

theorem rebuild_player_motion_witness:
  "pos (player (update (LEVELS beginner) (1 / 4, 1 / 2) (1 / 20)
       (run (LEVELS beginner) (throwEvents @ [tick, KeyDown ''d'' ''KeyD''])
          (initial (LEVELS beginner))))) = \<lparr>x = 138, y = 450\<rparr>
   \<and> dist_vec (pos (player (update (LEVELS beginner) (1 / 4, 1 / 2) (1 / 20)
       (run (LEVELS beginner) (throwEvents @ [tick, KeyDown ''d'' ''KeyD''])
          (initial (LEVELS beginner))))))
       (pos (player (run (LEVELS beginner) (throwEvents @ [tick, KeyDown ''d'' ''KeyD''])
          (initial (LEVELS beginner))))) \<le> 8"
proof -
  let ?L = "LEVELS beginner"
  let ?K = "(\<lambda>k. False)(''d'' := True)"
  let ?s1 = "run ?L (throwEvents @ [tick]) (initial ?L)"
  let ?s = "run ?L (throwEvents @ [tick, KeyDown ''d'' ''KeyD'']) (initial ?L)"
  have e: "?s = step ?L (KeyDown ''d'' ''KeyD'') ?s1"
    by (simp only: run_append run.simps)
  have "rebuilding ?K \<lparr>x = 130, y = 450\<rparr> 880 0 ?s"
    unfolding e by (rule rebuilding_keys(1) [OF hit_state]) simp_all
  then have ph: "phase ?s = Rebuild" and ks: "keys ?s = ?K" and h: "heldDir ?s = None"
    and p: "pos (player ?s) = \<lparr>x = 130, y = 450\<rparr>"
    by (simp_all add: rebuilding_def)
  have c: "0 \<le> playerSpeed ?L * (1 / 20)" by simp
  have c8: "playerSpeed ?L * (1 / 20) = 8" by simp
  have f: "inField (pos (player ?s))"
    unfolding p by (simp add: inField_def BASE_W_def BASE_H_def)
  have km: "keyMove ?K = \<lparr>x = 1, y = 0\<rparr>" by (simp add: keyMove_def Let_def)
  have nv: "norm_vec \<lparr>x = 1, y = 0\<rparr> = \<lparr>x = 1, y = 0\<rparr>" by (simp add: norm_vec_def len_def)
  note t = rebuild_player_motion [OF ph c, where rnd = "(1 / 4, 1 / 2)"]
  from t have "pos (player (update ?L (1 / 4, 1 / 2) (1 / 20) ?s))
      = heldStep ?L (1 / 20) (heldDir ?s) (keyStep ?L (1 / 20) (keys ?s) (pos (player ?s)))"
    by blast
  moreover from t have "keyStep ?L (1 / 20) (keys ?s) (pos (player ?s))
      = \<lparr>x = clamp (x (pos (player ?s))
                  + x (norm_vec (keyMove (keys ?s))) * playerSpeed ?L * (1 / 20)) 10 890,
         y = clamp (y (pos (player ?s))
                  + y (norm_vec (keyMove (keys ?s))) * playerSpeed ?L * (1 / 20)) 10 530\<rparr>"
    by blast
  ultimately have 1: "pos (player (update ?L (1 / 4, 1 / 2) (1 / 20) ?s)) = \<lparr>x = 138, y = 450\<rparr>"
    unfolding h ks km nv p by (simp add: heldStep_def clamp_def)
  from t f h have "dist_vec (pos (player (update ?L (1 / 4, 1 / 2) (1 / 20) ?s)))
      (pos (player ?s)) \<le> playerSpeed ?L * (1 / 20)" by blast
  then have 2: "dist_vec (pos (player (update ?L (1 / 4, 1 / 2) (1 / 20) ?s)))
      (pos (player ?s)) \<le> 8" unfolding c8 .
  from 1 2 show ?thesis by blast
qed

text \<open>
  Claim C8. A place action while the player is outside the place range of the pile
  centre, or when \<open>stonesPlaced\<close> has reached \<open>stonesTotal\<close>, changes nothing:
  \<open>tryPlaceStone\<close> and the Place button return the state as it is, so does a pointer-down
  in phase Rebuild, and the Space key leaves the metrics and the phase as they are (it
  records the key as held). Every one of them returns a state: there is no error case.
\<close>

theorem tryPlaceStone_noop:
  assumes "\<not> dist_vec (pos (player s)) pilePos \<le> placeRange
           \<or> stonesTotal (metrics s) \<le> stonesPlaced (metrics s)"
  shows "tryPlaceStone s = s \<and> handlePlaceStone s = s \<and>
         (phase s = Rebuild \<longrightarrow> down p s = s) \<and>
         metrics (onDown key code s) = metrics s \<and> phase (onDown key code s) = phase s"
proof -
  have 1: "tryPlaceStone t = t"
    if "\<not> dist_vec (pos (player t)) pilePos \<le> placeRange
           \<or> stonesTotal (metrics t) \<le> stonesPlaced (metrics t)" for t
    using that by (auto simp: tryPlaceStone_def)
  have 2: "tryPlaceStone (s\<lparr>keys := ks\<rparr>) = s\<lparr>keys := ks\<rparr>" for ks
    by (rule 1) (use assms in simp)
  show ?thesis using 1 [OF assms]
    by (simp add: handlePlaceStone_def down_def onDown_def Let_def 2)
qed

text \<open>
  In the game at the beginner level, right after the pile has collapsed: phase Rebuild
  with the player still at the spawn point \<open>(130, 450)\<close>, far from the pile at
  \<open>(450, 270)\<close>.
\<close>

theorem tryPlaceStone_noop_witness:
  "tryPlaceStone (run (LEVELS beginner) (throwEvents @ [tick]) (initial (LEVELS beginner)))
     = run (LEVELS beginner) (throwEvents @ [tick]) (initial (LEVELS beginner))
   \<and> down \<lparr>x = 450, y = 270\<rparr>
       (run (LEVELS beginner) (throwEvents @ [tick]) (initial (LEVELS beginner)))
     = run (LEVELS beginner) (throwEvents @ [tick]) (initial (LEVELS beginner))"
proof -
  let ?s = "run (LEVELS beginner) (throwEvents @ [tick]) (initial (LEVELS beginner))"
  have ph: "phase ?s = Rebuild" and p: "pos (player ?s) = \<lparr>x = 130, y = 450\<rparr>"
    using hit_state by (simp_all add: rebuilding_def)
  have far: "\<not> dist_vec (pos (player ?s)) pilePos \<le> placeRange"
    unfolding p
    by (simp add: dist_vec_le_iff placeRange_def seg_c_def pilePos_def BASE_W_def BASE_H_def)
  note t = tryPlaceStone_noop [of ?s "\<lparr>x = 450, y = 270\<rparr>"]
  from t far ph show ?thesis by blast
qed

text \<open>
  Claim C9. \<open>resetRound\<close>, from any state, for both values of \<open>keepScore\<close> and any random
  draws: the player is at the spawn point \<open>(130, 450)\<close> (bottom left: \<open>y\<close> grows downwards
  on the 900 by 540 field), the opponent at the random edge point, the ball at the player's
  position with velocity zero and not active, \<open>attemptsLeft\<close> is the level's attempts,
  \<open>stonesPlaced\<close> is 0, \<open>stonesTotal\<close> the level's stones, the pile is not collapsed, the
  phase is Aim, and the score is 0 when \<open>keepScore\<close> is false and the old score when it is
  true. The input state (pause flag, held keys and button, drag state) is not touched.
\<close>

theorem resetRound_effect:
  "pos (player (resetRound level rnd keepScore s)) = \<lparr>x = 130, y = 450\<rparr> \<and>
   pos (opponent (resetRound level rnd keepScore s)) = randomEdgeSpawn 900 540 rnd \<and>
   pos (ball (resetRound level rnd keepScore s)) = pos (player (resetRound level rnd keepScore s)) \<and>
   ballVel (resetRound level rnd keepScore s) = \<lparr>x = 0, y = 0\<rparr> \<and>
   ballActive (resetRound level rnd keepScore s) = False \<and>
   attemptsLeft (metrics (resetRound level rnd keepScore s)) = attempts level \<and>
   stonesPlaced (metrics (resetRound level rnd keepScore s)) = 0 \<and>
   stonesTotal (metrics (resetRound level rnd keepScore s)) = stones level \<and>
   pileCollapsed (resetRound level rnd keepScore s) = False \<and>
   phase (resetRound level rnd keepScore s) = Aim \<and>
   score (metrics (resetRound level rnd keepScore s)) = (if keepScore then score (metrics s) else 0) \<and>
   paused (resetRound level rnd keepScore s) = paused s \<and>
   heldDir (resetRound level rnd keepScore s) = heldDir s \<and>
   keys (resetRound level rnd keepScore s) = keys s \<and>
   dragging (resetRound level rnd keepScore s) = dragging s \<and>
   dragStart (resetRound level rnd keepScore s) = dragStart s \<and>
   dragCurrent (resetRound level rnd keepScore s) = dragCurrent s"
  by (simp add: resetRound_def Let_def BASE_W_def BASE_H_def)

text \<open>
  A reset that keeps the score and one that does not, from a state with score 60.
\<close>

theorem resetRound_effect_witness:
  "score (metrics (resetRound (LEVELS advanced) (0, 0) True
      ((initial (LEVELS advanced))\<lparr>metrics := \<lparr>score = 60, attemptsLeft = 1, stonesPlaced = 9,
         stonesTotal = 9\<rparr>, phase := Win\<rparr>))) = 60
   \<and> score (metrics (resetRound (LEVELS advanced) (0, 0) False
      ((initial (LEVELS advanced))\<lparr>metrics := \<lparr>score = 60, attemptsLeft = 1, stonesPlaced = 9,
         stonesTotal = 9\<rparr>, phase := Win\<rparr>))) = 0
   \<and> attemptsLeft (metrics (resetRound (LEVELS advanced) (0, 0) True
      ((initial (LEVELS advanced))\<lparr>metrics := \<lparr>score = 60, attemptsLeft = 1, stonesPlaced = 9,
         stonesTotal = 9\<rparr>, phase := Win\<rparr>))) = 2"
  using resetRound_effect [of "LEVELS advanced" "(0, 0)" True
      "(initial (LEVELS advanced))\<lparr>metrics := \<lparr>score = 60, attemptsLeft = 1, stonesPlaced = 9,
         stonesTotal = 9\<rparr>, phase := Win\<rparr>"]
    resetRound_effect [of "LEVELS advanced" "(0, 0)" False
      "(initial (LEVELS advanced))\<lparr>metrics := \<lparr>score = 60, attemptsLeft = 1, stonesPlaced = 9,
         stonesTotal = 9\<rparr>, phase := Win\<rparr>"]
  by simp

text \<open>
  Claim C10. In the phases Intro, Aim, Dragging, Win and Lose, \<open>update\<close> returns the state
  it was given, whatever the elapsed time: positions, velocity, the active flag, the
  metrics, the collapsed flag and the phase are all as before.
\<close>

theorem update_idle:
  "phase s \<in> {Intro, Aim, Dragging, Win, Lose} \<Longrightarrow> update level rnd dt s = s"
  by (auto simp: update_def)

theorem update_idle_witness:
  "update (LEVELS beginner) (0, 0) (1 / 20) (initial (LEVELS beginner)) = initial (LEVELS beginner)"
  by (rule update_idle) (simp add: initial_def)

end
